theory Spec2Isabelle
  imports Main "HOL-Library.Sublist"
begin

section \<open>Strings and the regular expressions of index.js\<close>

text \<open>
  A JavaScript string is modelled as a \<^typ>\<open>string\<close>, a list of characters with codes
  below 256. The patterns of the source test ASCII characters only.
\<close>

definition is_digit :: "char \<Rightarrow> bool" where
  \<comment> \<open>the class \<open>\d\<close>\<close>
  "is_digit c = (c \<in> set ''0123456789'')"

definition is_x :: "char \<Rightarrow> bool" where
  \<comment> \<open>the letter \<open>x\<close> under the flag \<open>i\<close>\<close>
  "is_x c = (c = CHR ''x'' \<or> c = CHR ''X'')"

definition rep34 :: "nat \<Rightarrow> bool" where
  \<comment> \<open>the repetition count \<open>{3,4}\<close>\<close>
  "rep34 n = (n = 3 \<or> n = 4)"

definition is_resolution :: "string \<Rightarrow> bool" where
  \<comment> \<open>\<open>/^\d{3,4}x\d{3,4}$/i.test(s)\<close>\<close>
  "is_resolution s =
     (let w = takeWhile is_digit s; r = dropWhile is_digit s
      in rep34 (length w) \<and>
         (case r of
            [] \<Rightarrow> False
          | c # h \<Rightarrow> is_x c \<and> rep34 (length h) \<and> list_all is_digit h))"

definition drop_prefix :: "string \<Rightarrow> string \<Rightarrow> string option" where
  \<comment> \<open>the rest of \<open>s\<close> after the literal \<open>p\<close> matched at \<open>^\<close>, if it matches\<close>
  "drop_prefix p s =
     (if take (length p) s = p then Some (drop (length p) s) else None)"

fun contains :: "string \<Rightarrow> string \<Rightarrow> bool" where
  \<comment> \<open>an unanchored literal pattern \<open>p\<close> matches somewhere in the string\<close>
  "contains p [] = (p = [])"
| "contains p (c # cs) = (take (length p) (c # cs) = p \<or> contains p cs)"

definition is_space :: "char \<Rightarrow> bool" where
  \<comment> \<open>the white space and line terminators below 256 that \<open>String.prototype.trim\<close>
      removes: tab, line feed, vertical tab, form feed, carriage return, space and the
      no-break space\<close>
  "is_space c =
     (c \<in> set [CHR 0x09, CHR 0x0A, CHR 0x0B, CHR 0x0C, CHR 0x0D, CHR '' '', CHR 0xA0])"

definition trim :: "string \<Rightarrow> string" where
  "trim s = rev (dropWhile is_space (rev (dropWhile is_space s)))"

section \<open>lodash: uniq and difference\<close>

fun uniq_into :: "'a list \<Rightarrow> 'a list \<Rightarrow> 'a list" where
  \<comment> \<open>the loop of \<open>_.uniq\<close>: a value is pushed onto the result unless it is already there\<close>
  "uniq_into result [] = result"
| "uniq_into result (x # xs) =
     (if x \<in> set result then uniq_into result xs else uniq_into (result @ [x]) xs)"

definition uniq :: "'a list \<Rightarrow> 'a list" where
  "uniq xs = uniq_into [] xs"

definition difference :: "'a list \<Rightarrow> 'a list \<Rightarrow> 'a list" where
  \<comment> \<open>\<open>_.difference(array, values)\<close>: the elements of \<open>array\<close> not in \<open>values\<close>\<close>
  "difference array vals = filter (\<lambda>x. x \<notin> set vals) array"

section \<open>The partition of a source's size tokens (lines 107 and 108)\<close>

definition explicit_sizes :: "string list \<Rightarrow> string list" where
  \<comment> \<open>\<open>var sizes = _.uniq(src.sizes.filter(/./.test, /^\d{3,4}x\d{3,4}$/i))\<close>\<close>
  "explicit_sizes toks = uniq (filter is_resolution toks)"

definition keywords_of :: "string list \<Rightarrow> string list" where
  \<comment> \<open>\<open>var keywords = _.difference(src.sizes, sizes)\<close>\<close>
  "keywords_of toks = difference toks (explicit_sizes toks)"

section \<open>The diagnostic channel of the renderer (lines 306 to 320)\<close>

datatype stream_event = Warn string | Error string

definition on_stderr_data :: "string \<Rightarrow> stream_event option" where
  \<comment> \<open>the listener on \<open>cp.stderr\<close>: the event it emits on the stream, if any\<close>
  "on_stderr_data d =
     (if contains '' phantomjs['' d then None
      else case drop_prefix ''WARN: '' d of
             Some rest \<Rightarrow> Some (Warn rest)
           | None \<Rightarrow> if length (trim d) \<noteq> 0 then Some (Error d) else None)"

section \<open>Options, sources and the Pageres object\<close>

datatype cookie = RawCookie string | ParsedCookie "(string \<times> string) list"

text \<open>An options object: a field is \<open>None\<close> when the property is absent.\<close>

record options =
  filename :: "string option"
  crop :: "bool option"
  delay :: "nat option"
  cookies :: "cookie list option"

definition no_options :: options where
  \<comment> \<open>the object literal \<open>{}\<close>\<close>
  "no_options = \<lparr>filename = None, crop = None, delay = None, cookies = None\<rparr>"

definition override :: "'a option \<Rightarrow> 'a option \<Rightarrow> 'a option" where
  "override a b = (case b of Some v \<Rightarrow> Some v | None \<Rightarrow> a)"

definition assign :: "options \<Rightarrow> options option \<Rightarrow> options" where
  \<comment> \<open>\<open>assign(target, source)\<close>: the properties of the source win; an undefined source
      is skipped\<close>
  "assign target source =
     (case source of
        None \<Rightarrow> target
      | Some s \<Rightarrow>
          \<lparr>filename = override (filename target) (filename s),
           crop = override (crop target) (crop s),
           delay = override (delay target) (delay s),
           cookies = override (cookies target) (cookies s)\<rparr>)"

text \<open>
  A registered source. The URL may be missing; the size tokens are an array of strings
  (\<open>run\<close> calls \<open>src.sizes.filter\<close> before any test, so a source without an array is
  outside the model).
\<close>

record source =
  src_url :: "string option"
  src_sizes :: "string list"
  src_options :: "options option"

record resolution_entry =
  item :: string

record viewport_entry =
  vsize :: string

datatype error = PhantomMissing | UrlRequired | LookupError string

text \<open>
  The modules index.js requires are not part of it. The values and functions it takes
  from them are the fields of an environment: the path of the renderer, the two lookup
  services with the result they call back with, the file system test, the helpers of job
  generation and, of slugify-url, what it does to the characters of a URL after its
  protocol (\<open>slug_characters\<close>).
\<close>

record env =
  phantomjs :: "string option"
  getRes :: "string + resolution_entry list"
  viewport :: "string list \<Rightarrow> string + viewport_entry list"
  existsSync :: "string \<Rightarrow> bool"
  fileUrl :: "string \<Rightarrow> string"
  protocol :: "string \<Rightarrow> string option"
  slug_characters :: "string \<Rightarrow> string"
  date :: string
  parseCookiePhantomjs :: "string \<Rightarrow> (string \<times> string) list"

record phantom_options =
  po_options :: options
  po_url :: string
  po_width :: string
  po_height :: "string option"

record capture_stream =
  spawned_with :: phantom_options
  stream_filename :: "string option"

text \<open>The effects of a run, in the order they happen.\<close>

datatype event =
    GetRes
  | ViewportList "string list"
  | Spawn phantom_options
  | Callback "error + capture_stream list"
  | SaveStage string "capture_stream list"

record run_stats =
  screenshots :: nat
  urls :: nat

text \<open>
  The fields of a Pageres object, and with them the log of the effects performed so far
  (\<open>p_trace\<close>, which is not a field of the source's object).
\<close>

record pageres =
  p_stats :: "run_stats option"
  p_options :: options
  p_src :: "source list"
  p_dest :: "string option"
  p_items :: "capture_stream list"
  p_sizes :: "string list"
  p_urls :: "string list"
  p_resolutions :: "resolution_entry list option"
  p_trace :: "event list"

definition default_filename :: string where
  "default_filename = ''<%= url %>-<%= size %><%= crop %>''"

definition construct :: "env \<Rightarrow> options option \<Rightarrow> pageres" where
  \<comment> \<open>the body of the constructor below its guard (lines 37 to 48)\<close>
  "construct e opts =
     (let os = assign no_options opts;
          fname = (case filename os of
                     None \<Rightarrow> default_filename
                   | Some f \<Rightarrow> if f = [] then default_filename else f);
          cs = map (\<lambda>el. case el of
                            RawCookie s \<Rightarrow> ParsedCookie (parseCookiePhantomjs e s)
                          | ParsedCookie c \<Rightarrow> ParsedCookie c)
                   (case cookies os of None \<Rightarrow> [] | Some c \<Rightarrow> c)
      in \<lparr>p_stats = None,
          p_options = os\<lparr>filename := Some fname, cookies := Some cs\<rparr>,
          p_src = [], p_dest = None, p_items = [], p_sizes = [], p_urls = [],
          p_resolutions = None, p_trace = []\<rparr>)"

definition Pageres :: "env \<Rightarrow> bool \<Rightarrow> options option \<Rightarrow> pageres" where
  \<comment> \<open>\<open>function Pageres(options)\<close>; \<open>is_instance\<close> is \<open>this instanceof Pageres\<close>: true
      under \<open>new\<close>, false in a plain call, which returns \<open>new Pageres()\<close>\<close>
  "Pageres e is_instance opts =
     (if \<not> is_instance then construct e None else construct e opts)"

definition src :: "string option \<Rightarrow> string list \<Rightarrow> options option \<Rightarrow> pageres \<Rightarrow> pageres" where
  \<comment> \<open>\<open>Pageres.prototype.src\<close> with arguments\<close>
  "src u szs opts p =
     p\<lparr>p_src := p_src p @ [\<lparr>src_url = u, src_sizes = szs, src_options = opts\<rparr>]\<rparr>"

definition dest :: "string \<Rightarrow> pageres \<Rightarrow> pageres" where
  \<comment> \<open>\<open>Pageres.prototype.dest\<close> with an argument\<close>
  "dest dir p = p\<lparr>p_dest := Some dir\<rparr>"

section \<open>Job generation (lines 259 to 323)\<close>

definition replace_localhost :: "string \<Rightarrow> string" where
  \<comment> \<open>\<open>url.replace(/^localhost/, 'http://$&')\<close>\<close>
  "replace_localhost u =
     (case drop_prefix ''localhost'' u of
        Some rest \<Rightarrow> ''http://'' @ ''localhost'' @ rest
      | None \<Rightarrow> u)"

definition truthy :: "string option \<Rightarrow> bool" where
  \<comment> \<open>a string value that is neither undefined, null nor empty\<close>
  "truthy v = (case v of None \<Rightarrow> False | Some s \<Rightarrow> s \<noteq> [])"

definition new_url :: "env \<Rightarrow> string \<Rightarrow> string" where
  \<comment> \<open>lines 264 to 269\<close>
  "new_url e u =
     (if existsSync e u then fileUrl e u
      else let n = replace_localhost u
           in if truthy (protocol e n) then n else ''http://'' @ n)"

definition strip_www :: "string \<Rightarrow> string" where
  \<comment> \<open>\<open>.replace(/^(?:https?:\/\/)?www\./, '')\<close>\<close>
  "strip_www s =
     (case drop_prefix ''http://www.'' s of
        Some r \<Rightarrow> r
      | None \<Rightarrow>
          (case drop_prefix ''https://www.'' s of
             Some r \<Rightarrow> r
           | None \<Rightarrow> (case drop_prefix ''www.'' s of Some r \<Rightarrow> r | None \<Rightarrow> s)))"

fun split_x :: "string \<Rightarrow> string list" where
  \<comment> \<open>\<open>size.split(/x/i)\<close>\<close>
  "split_x [] = [[]]"
| "split_x (c # cs) =
     (if is_x c then [] # split_x cs
      else case split_x cs of
             [] \<Rightarrow> [[c]]
           | part # parts \<Rightarrow> (c # part) # parts)"

definition element :: "'a list \<Rightarrow> nat \<Rightarrow> 'a option" where
  \<comment> \<open>\<open>array[i]\<close>, undefined out of range\<close>
  "element xs i = (if i < length xs then Some (xs ! i) else None)"

record template_data =
  t_url :: string
  t_size :: string
  t_crop :: string
  t_date :: string

definition variable :: "template_data \<Rightarrow> string \<Rightarrow> string option" where
  "variable d v =
     (if v = ''url'' then Some (t_url d)
      else if v = ''size'' then Some (t_size d)
      else if v = ''crop'' then Some (t_crop d)
      else if v = ''date'' then Some (t_date d)
      else None)"

text \<open>
  Modelled from the spec: lodash's \<open>_.template\<close> is not part of index.js. The spec has the
  filename rendered by substituting the placeholders url, size, crop and date, so the
  model renders literal text and the interpolations \<open><%= name %>\<close> of these four names.
  The second argument is the text of the interpolation being read, if any. The result is
  \<open>None\<close> for a template outside this fragment (code to evaluate, an escape
  delimiter, another expression), where lodash would run JavaScript.
\<close>

fun template :: "template_data \<Rightarrow> string option \<Rightarrow> string \<Rightarrow> string option" where
  "template d None [] = Some []"
| "template d None (c # cs) =
     (if take 3 (c # cs) = ''<%='' then template d (Some []) (drop 2 cs)
      else if take 2 (c # cs) = ''<%'' \<or> take 2 (c # cs) = ''${'' then None
      else map_option ((#) c) (template d None cs))"
| "template d (Some ex) [] = None"
| "template d (Some ex) (c # cs) =
     (if take 2 (c # cs) = ''%>''
      then (case variable d (trim ex) of
              None \<Rightarrow> None
            | Some v \<Rightarrow> map_option ((@) v) (template d None (drop 1 cs)))
      else template d (Some (ex @ [c])) cs)"

definition phantom :: "phantom_options \<Rightarrow> pageres \<Rightarrow> phantom_options \<times> pageres" where
  \<comment> \<open>\<open>_phantom\<close>: one renderer subprocess is spawned with the options; the stream it
      returns is identified with them\<close>
  "phantom po p = (po, p\<lparr>p_trace := p_trace p @ [Spawn po]\<rparr>)"

definition strip_protocol :: "string \<Rightarrow> string" where
  \<comment> \<open>the string without a leading \<open>http://\<close> or \<open>https://\<close>\<close>
  "strip_protocol u =
     (case drop_prefix ''http://'' u of
        Some r \<Rightarrow> r
      | None \<Rightarrow> (case drop_prefix ''https://'' u of Some r \<Rightarrow> r | None \<Rightarrow> u))"

text \<open>
  Modelled from the spec: slugify-url is not part of index.js. The spec has the url
  placeholder be a slug of the URL with any leading \<open>http://\<close>, \<open>https://\<close> or \<open>www.\<close>
  stripped. Of these index.js removes \<open>www.\<close> (\<open>strip_www\<close>), so the slug is the URL without
  a leading \<open>http://\<close> or \<open>https://\<close>. The spec does not say how the slug treats the other
  characters of the URL: that is the function \<open>slug_characters\<close> of the environment.
\<close>

definition slugifyUrl :: "env \<Rightarrow> string \<Rightarrow> string" where
  "slugifyUrl e u = slug_characters e (strip_protocol u)"

definition job_filename :: "env \<Rightarrow> string \<Rightarrow> string \<Rightarrow> options \<Rightarrow> string option" where
  \<comment> \<open>the value of \<open>filename\<close> in \<open>_generate\<close> (lines 271 to 276)\<close>
  "job_filename e u sz os =
     template
       \<lparr>t_url = strip_www (slugifyUrl e (if existsSync e u then u else new_url e u)),
        t_size = sz,
        t_crop = (if crop os = Some True then ''-cropped'' else []),
        t_date = date e\<rparr>
       None
       ((case filename os of None \<Rightarrow> ''undefined'' | Some f \<Rightarrow> f) @ ''.png'')"

definition job_options :: "env \<Rightarrow> string \<Rightarrow> string \<Rightarrow> options \<Rightarrow> phantom_options" where
  \<comment> \<open>the argument of \<open>_phantom\<close> in \<open>_generate\<close> (lines 278 to 282)\<close>
  "job_options e u sz os =
     \<lparr>po_options = assign (no_options\<lparr>delay := Some 0\<rparr>) (Some os),
      po_url = new_url e u,
      po_width = (case split_x sz of [] \<Rightarrow> [] | w # _ \<Rightarrow> w),
      po_height = element (split_x sz) 1\<rparr>"

definition generate ::
  "env \<Rightarrow> string \<Rightarrow> string \<Rightarrow> options \<Rightarrow> pageres \<Rightarrow> capture_stream \<times> pageres" where
  \<comment> \<open>\<open>_generate(url, size, options)\<close>\<close>
  "generate e u sz os p =
     (let fname = job_filename e u sz os;
          (po, p') = phantom (job_options e u sz os) p
      in (\<lparr>spawned_with = po, stream_filename = fname\<rparr>, p'))"

section \<open>Size resolution and the run (lines 97 to 213)\<close>

text \<open>
  Modelled from the spec: memoize-async is not part of index.js. The spec describes a
  memoizing cache keyed on the call arguments: a wrapper starts with an empty cache, a
  call with a cached key returns the stored result, and any other call invokes the
  wrapped service (the event \<open>invoked\<close>) and stores what it returns.
\<close>

record ('k, 'v) memoized =
  unmemoized :: "'k \<Rightarrow> 'v"
  invoked :: "'k \<Rightarrow> event"
  memo :: "('k \<times> 'v) list"

definition memoize :: "('k \<Rightarrow> 'v) \<Rightarrow> ('k \<Rightarrow> event) \<Rightarrow> ('k, 'v) memoized" where
  "memoize fn ev = \<lparr>unmemoized = fn, invoked = ev, memo = []\<rparr>"

definition call_memoized ::
  "('k, 'v) memoized \<Rightarrow> 'k \<Rightarrow> event list \<Rightarrow> 'v \<times> ('k, 'v) memoized \<times> event list" where
  "call_memoized g k tr =
     (case map_of (memo g) k of
        Some v \<Rightarrow> (v, g, tr)
      | None \<Rightarrow>
          (let v = unmemoized g k
           in (v, g\<lparr>memo := (k, v) # memo g\<rparr>, tr @ [invoked g k])))"

datatype signal = Pending | Next "error option"

definition push_size :: "string \<Rightarrow> pageres \<Rightarrow> pageres" where
  \<comment> \<open>\<open>self._sizes.push(size)\<close>\<close>
  "push_size sz p = p\<lparr>p_sizes := p_sizes p @ [sz]\<rparr>"

definition push_item :: "env \<Rightarrow> string \<Rightarrow> options \<Rightarrow> string \<Rightarrow> pageres \<Rightarrow> pageres" where
  \<comment> \<open>\<open>self._items.push(self._generate(url, size, options))\<close>\<close>
  "push_item e u os sz p =
     (let (st, p') = generate e u sz os p in p'\<lparr>p_items := p_items p' @ [st]\<rparr>)"

definition do_resolution :: "env \<Rightarrow> string \<Rightarrow> options \<Rightarrow> pageres \<Rightarrow> pageres \<times> signal" where
  \<comment> \<open>\<open>_resolution(url, options, cb)\<close>; the signal is what \<open>cb\<close> is called with\<close>
  "do_resolution e u os p =
     (let g = memoize (\<lambda>_ :: unit. getRes e) (\<lambda>_. GetRes);
          (r, g', tr) = call_memoized g () (p_trace p);
          p1 = p\<lparr>p_trace := tr\<rparr>
      in case r of
           Inl err \<Rightarrow> (p1, Next (Some (LookupError err)))
         | Inr res \<Rightarrow>
             (fold (\<lambda>sz q. push_item e u os (item sz) (push_size (item sz) q)) res
                (p1\<lparr>p_resolutions := Some res\<rparr>),
              Next None))"

definition do_viewport ::
  "env \<Rightarrow> string \<Rightarrow> string list \<Rightarrow> string list \<Rightarrow> options \<Rightarrow> pageres \<Rightarrow> pageres \<times> signal" where
  \<comment> \<open>\<open>_viewport(url, sizes, keywords, options, cb)\<close>\<close>
  "do_viewport e u szs kws os p =
     (let v = memoize (viewport e) ViewportList;
          (r, v', tr) = call_memoized v kws (p_trace p);
          p1 = p\<lparr>p_trace := tr\<rparr>
      in case r of
           Inl err \<Rightarrow> (p1, Next (Some (LookupError err)))
         | Inr res \<Rightarrow>
             (let p2 = fold (\<lambda>r q. push_size (vsize r) q) res p1;
                  szs' = szs @ map vsize res
              in (fold (\<lambda>sz q. push_item e u os sz q) (uniq szs') p2, Next None)))"

definition iteratee :: "env \<Rightarrow> source \<Rightarrow> pageres \<Rightarrow> pageres \<times> signal" where
  \<comment> \<open>the function \<open>run\<close> gives to \<open>eachAsync\<close> (lines 105 to 133); the signal is what it
      calls \<open>next\<close> with, \<open>Pending\<close> if it never does\<close>
  "iteratee e s p =
     (let os = assign (assign no_options (Some (p_options p))) (src_options s);
          szs = explicit_sizes (src_sizes s);
          kws = keywords_of (src_sizes s)
      in case src_url s of
           None \<Rightarrow> (p\<lparr>p_trace := p_trace p @ [Callback (Inl UrlRequired)]\<rparr>, Pending)
         | Some u \<Rightarrow>
             if u = [] then (p\<lparr>p_trace := p_trace p @ [Callback (Inl UrlRequired)]\<rparr>, Pending)
             else
               (let p1 = p\<lparr>p_urls := p_urls p @ [u]\<rparr>
                in if szs = [] \<and> ''w3counter'' \<in> set kws then do_resolution e u os p1
                   else if kws \<noteq> [] then do_viewport e u szs kws os p1
                   else (fold (\<lambda>sz q. push_item e u os sz (push_size sz q)) szs p1,
                         Next None)))"

text \<open>
  each-async is not part of index.js. It calls the iterator on every element, in index
  order, and counts the calls of \<open>next\<close>: the first error given to \<open>next\<close> goes to the
  final callback, which otherwise is called once every element has called \<open>next\<close>. The
  three components of the loop's state are its flag \<open>failed\<close>, its counter and the state
  of the program.

  In the model a lookup calls back inside the step that calls it, before the next element
  is started. A real lookup calls back later, after the synchronous part of every step.
  So the order in which the trace lists the effects of different sources belongs to the
  model, not to the program; what is proved of a run below does not depend on it: which
  effects occur, how often, and what one step does.
\<close>

definition callback ::
  "(error option \<Rightarrow> 's \<Rightarrow> 's) \<Rightarrow> nat \<Rightarrow> signal \<Rightarrow> bool \<times> nat \<times> 's \<Rightarrow> bool \<times> nat \<times> 's" where
  "callback final len sig st =
     (case st of (failed, count, s) \<Rightarrow>
        (case sig of
           Pending \<Rightarrow> st
         | Next err \<Rightarrow>
             if failed then st
             else (case err of
                     Some er \<Rightarrow> (True, count, final (Some er) s)
                   | None \<Rightarrow>
                       if Suc count = len then (failed, Suc count, final None s)
                       else (failed, Suc count, s))))"

fun each_loop ::
  "('a \<Rightarrow> 's \<Rightarrow> 's \<times> signal) \<Rightarrow> (error option \<Rightarrow> 's \<Rightarrow> 's) \<Rightarrow> nat \<Rightarrow> 'a list \<Rightarrow>
   bool \<times> nat \<times> 's \<Rightarrow> bool \<times> nat \<times> 's" where
  "each_loop it final len [] st = st"
| "each_loop it final len (x # xs) (failed, count, s) =
     (case it x s of
        (s', sig) \<Rightarrow> each_loop it final len xs (callback final len sig (failed, count, s')))"

definition eachAsync ::
  "'a list \<Rightarrow> ('a \<Rightarrow> 's \<Rightarrow> 's \<times> signal) \<Rightarrow> (error option \<Rightarrow> 's \<Rightarrow> 's) \<Rightarrow> 's \<Rightarrow> 's" where
  "eachAsync arr it final s =
     (if arr = [] then final None s
      else snd (snd (each_loop it final (length arr) arr (False, 0, s))))"

definition save :: "capture_stream list \<Rightarrow> pageres \<Rightarrow> pageres" where
  \<comment> \<open>\<open>_save(items, cb)\<close>: the save stage starts on the items; how it ends depends on the
      file system and on the streams, and is not modelled\<close>
  "save its p =
     p\<lparr>p_trace := p_trace p @ [SaveStage (case p_dest p of None \<Rightarrow> [] | Some d \<Rightarrow> d) its]\<rparr>"

definition finish :: "error option \<Rightarrow> pageres \<Rightarrow> pageres" where
  \<comment> \<open>the final callback of \<open>run\<close> (lines 133 to 148)\<close>
  "finish err p =
     (case err of
        Some er \<Rightarrow> p\<lparr>p_trace := p_trace p @ [Callback (Inl er)]\<rparr>
      | None \<Rightarrow>
          (let p1 = p\<lparr>p_stats := Some \<lparr>screenshots = length (uniq (p_sizes p)),
                                         urls = length (uniq (p_urls p))\<rparr>\<rparr>
           in if \<not> truthy (p_dest p1)
              then p1\<lparr>p_trace := p_trace p1 @ [Callback (Inr (p_items p1))]\<rparr>
              else save (p_items p1) p1))"

definition run :: "env \<Rightarrow> pageres \<Rightarrow> pageres" where
  \<comment> \<open>\<open>Pageres.prototype.run\<close>\<close>
  "run e p =
     (if \<not> truthy (phantomjs e)
      then p\<lparr>p_trace := p_trace p @ [Callback (Inl PhantomMissing)]\<rparr>
      else eachAsync (p_src p) (iteratee e) finish p)"

section \<open>Reading a run\<close>

definition new_events :: "pageres \<Rightarrow> pageres \<Rightarrow> event list" where
  \<comment> \<open>the effects performed between the state \<open>p\<close> and the later state \<open>p'\<close>\<close>
  "new_events p p' = drop (length (p_trace p)) (p_trace p')"

definition capture :: "env \<Rightarrow> string \<Rightarrow> options \<Rightarrow> string \<Rightarrow> capture_stream" where
  \<comment> \<open>the stream \<open>_generate\<close> returns\<close>
  "capture e u os sz =
     \<lparr>spawned_with = job_options e u sz os, stream_filename = job_filename e u sz os\<rparr>"

definition merged_options :: "pageres \<Rightarrow> source \<Rightarrow> options" where
  \<comment> \<open>\<open>assign({}, self.options, src.options)\<close>\<close>
  "merged_options p s = assign (assign no_options (Some (p_options p))) (src_options s)"

fun success :: "event \<Rightarrow> bool" where
  \<comment> \<open>the events of a run that went past its final callback without an error\<close>
  "success (Callback (Inr its)) = True"
| "success (SaveStage d its) = True"
| "success ev = False"

definition quiet :: "pageres \<Rightarrow> pageres \<Rightarrow> bool" where
  \<comment> \<open>from \<open>p\<close> to \<open>p'\<close> the trace grew by events that are no success, and the statistics
      were not written\<close>
  "quiet p p' =
     (take (length (p_trace p)) (p_trace p') = p_trace p \<and>
      list_all (\<lambda>ev. \<not> success ev) (new_events p p') \<and>
      p_stats p' = p_stats p)"

section \<open>A sample environment\<close>

definition scheme_char :: "char \<Rightarrow> bool" where
  "scheme_char c = (c \<in> set ''abcdefghijklmnopqrstuvwxyzABCDEFGHIJKLMNOPQRSTUVWXYZ0123456789.+-'')"

definition scheme_of :: "string \<Rightarrow> string option" where
  \<comment> \<open>a protocol in the manner of Node's \<open>url.parse\<close>: the match of \<open>/^[a-z0-9.+-]+:/i\<close>\<close>
  "scheme_of u =
     (let sc = takeWhile scheme_char u
      in if sc \<noteq> [] \<and> take 1 (dropWhile scheme_char u) = '':'' then Some (sc @ '':'') else None)"

definition sample_env :: env where
  "sample_env =
     \<lparr>phantomjs = Some ''/usr/local/bin/phantomjs'',
      getRes = Inr [\<lparr>item = ''1366x768''\<rparr>, \<lparr>item = ''1920x1080''\<rparr>],
      viewport = (\<lambda>kws. if kws = [''iphone 5''] then Inr [\<lparr>vsize = ''320x568''\<rparr>]
                         else Inl ''unknown device''),
      existsSync = (\<lambda>f. f = ''index.html''),
      fileUrl = (\<lambda>f. ''file:///srv/'' @ f),
      protocol = scheme_of,
      slug_characters = map (\<lambda>c. if c = CHR ''/'' then CHR ''!'' else c),
      date = ''2014-9-30'',
      parseCookiePhantomjs = (\<lambda>c. [(''cookie'', c)])\<rparr>"

section \<open>Lemmas: strings and patterns\<close>

lemma drop_prefix_Some: "drop_prefix p s = Some r \<longleftrightarrow> s = p @ r"
  unfolding drop_prefix_def
  by (metis append_eq_conv_conj option.distinct(1) option.inject)

lemma drop_prefix_append [simp]: "drop_prefix p (p @ r) = Some r"
  by (simp add: drop_prefix_Some)

lemma drop_prefix_None: "drop_prefix p s = None \<longleftrightarrow> \<not> prefix p s"
  unfolding drop_prefix_def prefix_def
  by (metis append_eq_conv_conj append_take_drop_id option.distinct(1))

lemma contains_iff: "contains p s \<longleftrightarrow> (\<exists>a b. s = a @ p @ b)"
proof (induction s)
  case Nil
  then show ?case by auto
next
  case (Cons c cs)
  have "take (length p) (c # cs) = p \<longleftrightarrow> (\<exists>b. c # cs = p @ b)"
    by (metis append_eq_conv_conj append_take_drop_id)
  moreover have "(\<exists>a b. c # cs = a @ p @ b) \<longleftrightarrow> (\<exists>b. c # cs = p @ b) \<or> (\<exists>a b. cs = a @ p @ b)"
  proof
    assume "\<exists>a b. c # cs = a @ p @ b"
    then obtain a b where ab: "c # cs = a @ p @ b" by blast
    show "(\<exists>b. c # cs = p @ b) \<or> (\<exists>a b. cs = a @ p @ b)"
    proof (cases a)
      case Nil
      with ab show ?thesis by auto
    next
      case (Cons a0 a')
      with ab have "cs = a' @ p @ b" by simp
      then show ?thesis by blast
    qed
  next
    assume "(\<exists>b. c # cs = p @ b) \<or> (\<exists>a b. cs = a @ p @ b)"
    then show "\<exists>a b. c # cs = a @ p @ b"
    proof
      assume "\<exists>b. c # cs = p @ b"
      then obtain b where "c # cs = [] @ p @ b" by auto
      then show ?thesis by blast
    next
      assume "\<exists>a b. cs = a @ p @ b"
      then obtain a b where "cs = a @ p @ b" by blast
      then have "c # cs = (c # a) @ p @ b" by simp
      then show ?thesis by blast
    qed
  qed
  ultimately show ?case using Cons.IH by simp
qed

lemma dropWhile_all_iff: "(\<forall>c \<in> set (dropWhile P s). P c) \<longleftrightarrow> dropWhile P s = []"
proof
  assume a: "\<forall>c \<in> set (dropWhile P s). P c"
  show "dropWhile P s = []"
  proof (rule ccontr)
    assume n: "dropWhile P s \<noteq> []"
    then have "\<not> P (hd (dropWhile P s))" by (rule hd_dropWhile)
    moreover from n have "hd (dropWhile P s) \<in> set (dropWhile P s)" by (rule hd_in_set)
    ultimately show False using a by blast
  qed
next
  assume e: "dropWhile P s = []"
  show "\<forall>c \<in> set (dropWhile P s). P c" unfolding e by simp
qed

lemma trim_empty_iff: "trim s = [] \<longleftrightarrow> list_all is_space s"
proof -
  have "trim s = [] \<longleftrightarrow> dropWhile is_space (rev (dropWhile is_space s)) = []"
    by (simp add: trim_def)
  also have "\<dots> \<longleftrightarrow> (\<forall>c \<in> set (dropWhile is_space s). is_space c)"
    by simp
  also have "\<dots> \<longleftrightarrow> dropWhile is_space s = []"
    by (rule dropWhile_all_iff)
  also have "\<dots> \<longleftrightarrow> list_all is_space s"
    by (simp add: list_all_iff)
  finally show ?thesis .
qed

section \<open>Lemmas: uniq and the resolution pattern\<close>

lemma set_uniq_into: "set (uniq_into r xs) = set r \<union> set xs"
  by (induction xs arbitrary: r) auto

lemma distinct_uniq_into: "distinct r \<Longrightarrow> distinct (uniq_into r xs)"
  by (induction xs arbitrary: r) auto

lemma uniq_into_append:
  "uniq_into r xs = r @ uniq_into [] (filter (\<lambda>y. y \<notin> set r) xs)"
proof (induction "length xs" arbitrary: xs r rule: less_induct)
  case less
  show ?case
  proof (cases xs)
    case Nil
    then show ?thesis by simp
  next
    case (Cons x ys)
    show ?thesis
    proof (cases "x \<in> set r")
      case True
      have "uniq_into r ys = r @ uniq_into [] (filter (\<lambda>y. y \<notin> set r) ys)"
        using less [of ys r] Cons by simp
      with True Cons show ?thesis by simp
    next
      case False
      let ?f = "filter (\<lambda>y. y \<notin> set r) ys"
      have 1: "uniq_into (r @ [x]) ys
                 = (r @ [x]) @ uniq_into [] (filter (\<lambda>y. y \<notin> set (r @ [x])) ys)"
        using less [of ys "r @ [x]"] Cons by simp
      have "length ?f < length xs"
        using Cons by (simp add: le_imp_less_Suc)
      then have 2: "uniq_into [x] ?f = [x] @ uniq_into [] (filter (\<lambda>y. y \<notin> set [x]) ?f)"
        using less [of ?f "[x]"] by simp
      have 3: "filter (\<lambda>y. y \<notin> set [x]) ?f = filter (\<lambda>y. y \<notin> set (r @ [x])) ys"
        by (induction ys) auto
      from False Cons 1 2 3 show ?thesis by simp
    qed
  qed
qed

lemma set_uniq: "set (uniq xs) = set xs"
  by (simp add: uniq_def set_uniq_into)

lemma distinct_uniq: "distinct (uniq xs)"
  by (simp add: uniq_def distinct_uniq_into)

lemma uniq_Cons: "uniq (x # xs) = x # uniq (filter (\<lambda>y. y \<noteq> x) xs)"
  using uniq_into_append [of "[x]" xs] by (simp add: uniq_def)

lemma length_uniq: "length (uniq xs) = card (set xs)"
  using distinct_card [OF distinct_uniq, of xs] by (simp add: set_uniq)

lemma is_resolution_iff:
  "is_resolution s \<longleftrightarrow>
     (\<exists>w c h. s = w @ c # h \<and> list_all is_digit w \<and> rep34 (length w) \<and> is_x c
        \<and> list_all is_digit h \<and> rep34 (length h))"
proof
  assume r: "is_resolution s"
  let ?w = "takeWhile is_digit s"
  from r obtain c h where d: "dropWhile is_digit s = c # h"
    by (auto simp: is_resolution_def Let_def split: list.splits)
  have "s = ?w @ c # h" using d by (metis takeWhile_dropWhile_id)
  moreover have "list_all is_digit ?w" by (simp add: list_all_iff) (meson set_takeWhileD)
  ultimately show "\<exists>w c h. s = w @ c # h \<and> list_all is_digit w \<and> rep34 (length w) \<and> is_x c
        \<and> list_all is_digit h \<and> rep34 (length h)"
    using r d by (auto simp: is_resolution_def Let_def)
next
  assume "\<exists>w c h. s = w @ c # h \<and> list_all is_digit w \<and> rep34 (length w) \<and> is_x c
        \<and> list_all is_digit h \<and> rep34 (length h)"
  then obtain w c h where s: "s = w @ c # h" and w: "list_all is_digit w" "rep34 (length w)"
    and c: "is_x c" and h: "list_all is_digit h" "rep34 (length h)" by blast
  have nd: "\<not> is_digit c" using c by (auto simp: is_x_def is_digit_def)
  have "takeWhile is_digit s = w" using s w nd by (simp add: list_all_iff takeWhile_append2)
  moreover have "dropWhile is_digit s = c # h"
    using s w nd by (simp add: list_all_iff dropWhile_append2)
  ultimately show "is_resolution s" using w c h by (simp add: is_resolution_def)
qed

lemma subseq_uniq: "subseq (uniq xs) xs"
proof (induction "length xs" arbitrary: xs rule: less_induct)
  case less
  show ?case
  proof (cases xs)
    case Nil
    then show ?thesis by (simp add: uniq_def)
  next
    case (Cons x ys)
    let ?f = "filter (\<lambda>y. y \<noteq> x) ys"
    have "length ?f < length xs" using Cons by (simp add: le_imp_less_Suc)
    then have "subseq (uniq ?f) ?f" by (rule less)
    moreover have "subseq ?f ys" by simp
    ultimately have "subseq (uniq ?f) ys" by (rule subseq_order.trans)
    then show ?thesis using Cons by (simp add: uniq_Cons)
  qed
qed

lemma keywords_of_eq: "keywords_of toks = filter (\<lambda>t. \<not> is_resolution t) toks"
proof -
  have "\<And>t. t \<in> set toks \<Longrightarrow> (t \<notin> set (explicit_sizes toks)) = (\<not> is_resolution t)"
    by (simp add: explicit_sizes_def set_uniq)
  then show ?thesis
    unfolding keywords_of_def difference_def by (simp cong: filter_cong)
qed

lemma uniq_into_app: "uniq_into r (xs @ ys) = uniq_into (uniq_into r xs) ys"
  by (induction xs arbitrary: r) auto

lemma uniq_distinct: "distinct xs \<Longrightarrow> uniq xs = xs"
proof (induction xs)
  case Nil
  then show ?case by (simp add: uniq_def)
next
  case (Cons x xs)
  then have "filter (\<lambda>y. y \<noteq> x) xs = xs" by (auto simp: filter_id_conv)
  with Cons show ?case by (simp add: uniq_Cons)
qed

lemma uniq_append_distinct:
  "distinct xs \<Longrightarrow> uniq (xs @ ys) = xs @ uniq (filter (\<lambda>y. y \<notin> set xs) ys)"
proof -
  assume d: "distinct xs"
  have "uniq (xs @ ys) = uniq_into (uniq xs) ys"
    by (simp add: uniq_def uniq_into_app)
  also have "\<dots> = uniq_into xs ys" using d by (simp add: uniq_distinct)
  also have "\<dots> = xs @ uniq (filter (\<lambda>y. y \<notin> set xs) ys)"
    unfolding uniq_def by (rule uniq_into_append)
  finally show ?thesis .
qed

section \<open>Lemmas: the steps of a run\<close>

lemma push_item_eq:
  "push_item e u os sz p =
     p\<lparr>p_items := p_items p @ [capture e u os sz],
       p_trace := p_trace p @ [Spawn (job_options e u sz os)]\<rparr>"
  by (simp add: push_item_def generate_def phantom_def capture_def Let_def)

lemma fold_push_size_item:
  "fold (\<lambda>sz q. push_item e u os sz (push_size sz q)) szs p =
     p\<lparr>p_items := p_items p @ map (capture e u os) szs,
       p_sizes := p_sizes p @ szs,
       p_trace := p_trace p @ map (\<lambda>sz. Spawn (job_options e u sz os)) szs\<rparr>"
  by (induction szs arbitrary: p) (simp_all add: push_item_eq push_size_def)

lemma fold_push_item:
  "fold (\<lambda>sz q. push_item e u os sz q) szs p =
     p\<lparr>p_items := p_items p @ map (capture e u os) szs,
       p_trace := p_trace p @ map (\<lambda>sz. Spawn (job_options e u sz os)) szs\<rparr>"
  by (induction szs arbitrary: p) (simp_all add: push_item_eq)

lemma fold_push_size:
  "fold (\<lambda>r q. push_size (f r) q) res p = p\<lparr>p_sizes := p_sizes p @ map f res\<rparr>"
  by (induction res arbitrary: p) (simp_all add: push_size_def)

lemma fold_push_entries:
  "fold (\<lambda>r q. push_item e u os (item r) (push_size (item r) q)) res p =
     p\<lparr>p_items := p_items p @ map (capture e u os) (map item res),
       p_sizes := p_sizes p @ map item res,
       p_trace := p_trace p @ map (\<lambda>sz. Spawn (job_options e u sz os)) (map item res)\<rparr>"
  by (induction res arbitrary: p) (simp_all add: push_item_eq push_size_def)

lemma call_fresh:
  "call_memoized (memoize fn ev) k tr = (fn k, \<lparr>unmemoized = fn, invoked = ev, memo = [(k, fn k)]\<rparr>, tr @ [ev k])"
  by (simp add: call_memoized_def memoize_def Let_def)

lemma do_resolution_ok:
  "getRes e = Inr res \<Longrightarrow>
   do_resolution e u os p =
     (p\<lparr>p_items := p_items p @ map (capture e u os) (map item res),
        p_sizes := p_sizes p @ map item res,
        p_resolutions := Some res,
        p_trace := p_trace p @ GetRes # map (\<lambda>sz. Spawn (job_options e u sz os)) (map item res)\<rparr>,
      Next None)"
  by (simp add: do_resolution_def call_fresh fold_push_entries)

lemma do_resolution_err:
  "getRes e = Inl err \<Longrightarrow>
   do_resolution e u os p = (p\<lparr>p_trace := p_trace p @ [GetRes]\<rparr>, Next (Some (LookupError err)))"
  by (simp add: do_resolution_def call_fresh)

lemma do_viewport_ok:
  "viewport e kws = Inr res \<Longrightarrow>
   do_viewport e u szs kws os p =
     (p\<lparr>p_items := p_items p @ map (capture e u os) (uniq (szs @ map vsize res)),
        p_sizes := p_sizes p @ map vsize res,
        p_trace := p_trace p @ ViewportList kws #
                     map (\<lambda>sz. Spawn (job_options e u sz os)) (uniq (szs @ map vsize res))\<rparr>,
      Next None)"
  by (simp add: do_viewport_def call_fresh fold_push_size fold_push_item Let_def)

lemma do_viewport_err:
  "viewport e kws = Inl err \<Longrightarrow>
   do_viewport e u szs kws os p =
     (p\<lparr>p_trace := p_trace p @ [ViewportList kws]\<rparr>, Next (Some (LookupError err)))"
  by (simp add: do_viewport_def call_fresh)

lemma iteratee_missing:
  "\<not> truthy (src_url s) \<Longrightarrow>
   iteratee e s p = (p\<lparr>p_trace := p_trace p @ [Callback (Inl UrlRequired)]\<rparr>, Pending)"
  by (auto simp: iteratee_def truthy_def Let_def split: option.splits)

lemma iteratee_present:
  "src_url s = Some u \<Longrightarrow> u \<noteq> [] \<Longrightarrow>
   iteratee e s p =
     (let os = merged_options p s;
          szs = explicit_sizes (src_sizes s);
          kws = keywords_of (src_sizes s);
          p1 = p\<lparr>p_urls := p_urls p @ [u]\<rparr>
      in if szs = [] \<and> ''w3counter'' \<in> set kws then do_resolution e u os p1
         else if kws \<noteq> [] then do_viewport e u szs kws os p1
         else (fold (\<lambda>sz q. push_item e u os sz (push_size sz q)) szs p1, Next None))"
  by (simp add: iteratee_def merged_options_def Let_def)

lemma new_events_append [simp]: "p_trace p' = p_trace p @ ev \<Longrightarrow> new_events p p' = ev"
  by (simp add: new_events_def)

section \<open>Lemmas: job generation\<close>

lemma replace_localhost_prefix: "prefix ''localhost'' u \<Longrightarrow> replace_localhost u = ''http://'' @ u"
proof -
  assume "prefix ''localhost'' u"
  then obtain r where u: "u = ''localhost'' @ r" by (auto simp: prefix_def)
  have "drop_prefix ''localhost'' (''localhost'' @ r) = Some r" by (rule drop_prefix_append)
  then show ?thesis unfolding u replace_localhost_def by simp
qed

lemma replace_localhost_other: "\<not> prefix ''localhost'' u \<Longrightarrow> replace_localhost u = u"
  by (simp add: replace_localhost_def drop_prefix_None [THEN iffD2])

lemma generate_eq:
  "generate e u sz os p = (capture e u os sz, p\<lparr>p_trace := p_trace p @ [Spawn (job_options e u sz os)]\<rparr>)"
  by (simp add: generate_def phantom_def capture_def Let_def)

lemma template_default:
  "template d None (default_filename @ ''.png'')
     = Some (t_url d @ ''-'' @ t_size d @ t_crop d @ ''.png'')"
  by (simp add: default_filename_def variable_def trim_def is_space_def)

lemma strip_www_cases:
  "strip_www (''www.'' @ r) = r"
  "strip_www (''http://www.'' @ r) = r"
  "strip_www (''https://www.'' @ r) = r"
  by (simp_all add: strip_www_def drop_prefix_def)

lemma job_filename_default:
  "filename os = Some default_filename \<Longrightarrow>
   job_filename e u sz os
     = Some (strip_www (slugifyUrl e (if existsSync e u then u else new_url e u))
             @ ''-'' @ sz @ (if crop os = Some True then ''-cropped'' else []) @ ''.png'')"
  by (simp add: job_filename_def template_default)

lemma slugifyUrl_http: "slugifyUrl e (''http://'' @ r) = slug_characters e r"
proof -
  have "drop_prefix ''http://'' (''http://'' @ r) = Some r" by (rule drop_prefix_append)
  then show ?thesis unfolding slugifyUrl_def strip_protocol_def by simp
qed

lemma slugifyUrl_https: "slugifyUrl e (''https://'' @ r) = slug_characters e r"
proof -
  have a: "drop_prefix ''http://'' (''https://'' @ r) = None" by (simp add: drop_prefix_def)
  have b: "drop_prefix ''https://'' (''https://'' @ r) = Some r" by (rule drop_prefix_append)
  show ?thesis unfolding slugifyUrl_def strip_protocol_def using a b by simp
qed

section \<open>Lemmas: the loop of each-async\<close>

lemma spawns_quiet: "list_all (\<lambda>x. \<not> success x) (map (\<lambda>z. Spawn (f z)) l)"
  by (induction l) simp_all

lemma spawns_quiet_comp: "list_all (\<lambda>x. \<not> success x) (map ((\<lambda>z. Spawn (f z)) \<circ> g) l)"
  by (induction l) simp_all

lemma iteratee_quiet:
  "\<exists>ev. p_trace (fst (iteratee e s p)) = p_trace p @ ev \<and> list_all (\<lambda>x. \<not> success x) ev
        \<and> p_stats (fst (iteratee e s p)) = p_stats p"
proof (cases "truthy (src_url s)")
  case False
  then show ?thesis by (simp add: iteratee_missing)
next
  case True
  then obtain u where url: "src_url s = Some u" "u \<noteq> []"
    by (auto simp: truthy_def split: option.splits)
  let ?os = "merged_options p s"
  let ?szs = "explicit_sizes (src_sizes s)"
  let ?kws = "keywords_of (src_sizes s)"
  let ?p1 = "p\<lparr>p_urls := p_urls p @ [u]\<rparr>"
  consider (pop) "?szs = [] \<and> ''w3counter'' \<in> set ?kws"
    | (vp) "\<not> (?szs = [] \<and> ''w3counter'' \<in> set ?kws)" "?kws \<noteq> []"
    | (ex) "\<not> (?szs = [] \<and> ''w3counter'' \<in> set ?kws)" "?kws = []"
    by blast
  then show ?thesis
  proof cases
    case pop
    then have step: "iteratee e s p = do_resolution e u ?os ?p1"
      by (simp add: iteratee_present [OF url] Let_def)
    show ?thesis
    proof (cases "getRes e")
      case (Inl err)
      show ?thesis by (simp add: step do_resolution_err [OF Inl])
    next
      case (Inr r)
      show ?thesis by (simp add: spawns_quiet spawns_quiet_comp step do_resolution_ok [OF Inr])
    qed
  next
    case vp
    then have step: "iteratee e s p = do_viewport e u ?szs ?kws ?os ?p1"
      by (auto simp add: iteratee_present [OF url] Let_def)
    show ?thesis
    proof (cases "viewport e ?kws")
      case (Inl err)
      show ?thesis by (simp add: step do_viewport_err [OF Inl])
    next
      case (Inr r)
      show ?thesis by (simp add: spawns_quiet spawns_quiet_comp step do_viewport_ok [OF Inr])
    qed
  next
    case ex
    then have step: "iteratee e s p =
        (fold (\<lambda>sz q. push_item e u ?os sz (push_size sz q)) ?szs ?p1, Next None)"
      by (auto simp add: iteratee_present [OF url] Let_def)
    show ?thesis by (simp add: spawns_quiet spawns_quiet_comp step fold_push_size_item)
  qed
qed

lemma iteratee_next_truthy: "snd (iteratee e s p) \<noteq> Pending \<Longrightarrow> truthy (src_url s)"
  using iteratee_missing [of s e p] by (cases "truthy (src_url s)") auto

lemma finish_error:
  "finish (Some er) p = p\<lparr>p_trace := p_trace p @ [Callback (Inl er)]\<rparr>"
  by (simp add: finish_def)

lemma each_loop_append:
  "each_loop it fin len (xs @ ys) st = each_loop it fin len ys (each_loop it fin len xs st)"
proof (induction xs arbitrary: st)
  case Nil
  show ?case by simp
next
  case (Cons x xs)
  obtain f c s where st: "st = (f, c, s)" by (cases st)
  show ?case unfolding st by (simp add: Cons split: prod.splits)
qed

lemma quietI:
  "p_trace p' = p_trace p @ ev \<Longrightarrow> list_all (\<lambda>x. \<not> success x) ev \<Longrightarrow> p_stats p' = p_stats p
   \<Longrightarrow> quiet p p'"
  by (simp add: quiet_def new_events_def)

lemma quietD:
  "quiet p p' \<Longrightarrow> \<exists>ev. p_trace p' = p_trace p @ ev \<and> list_all (\<lambda>x. \<not> success x) ev
     \<and> p_stats p' = p_stats p"
proof -
  assume q: "quiet p p'"
  have "p_trace p' = take (length (p_trace p)) (p_trace p') @ drop (length (p_trace p)) (p_trace p')"
    by simp
  with q have "p_trace p' = p_trace p @ new_events p p'"
    by (simp add: quiet_def new_events_def)
  with q show ?thesis unfolding quiet_def by blast
qed

lemma quiet_refl: "quiet p p"
  by (rule quietI [of _ _ "[]"]) simp_all

lemma quiet_trans: "quiet p q \<Longrightarrow> quiet q r \<Longrightarrow> quiet p r"
proof -
  assume "quiet p q" "quiet q r"
  then obtain a b where a: "p_trace q = p_trace p @ a" "list_all (\<lambda>x. \<not> success x) a"
      "p_stats q = p_stats p"
    and b: "p_trace r = p_trace q @ b" "list_all (\<lambda>x. \<not> success x) b" "p_stats r = p_stats q"
    by (blast dest: quietD)
  show ?thesis
    by (rule quietI [of _ _ "a @ b"]) (simp_all add: a b)
qed

lemma iteratee_quiet': "quiet p (fst (iteratee e s p))"
  using iteratee_quiet [of e s p] by (blast intro: quietI)

lemma finish_error_quiet: "quiet p (finish (Some er) p)"
  by (rule quietI [of _ _ "[Callback (Inl er)]"]) (simp_all add: finish_error)

lemma each_loop_quiet:
  "c + length xs \<le> len \<Longrightarrow>
   (c + length xs = len \<longrightarrow> list_ex (\<lambda>x. \<not> truthy (src_url x)) xs) \<Longrightarrow>
   quiet p (snd (snd (each_loop (iteratee e) finish len xs (f, c, p))))"
proof (induction xs arbitrary: f c p)
  case Nil
  show ?case by (simp add: quiet_refl)
next
  case (Cons x xs)
  obtain p' sig where it: "iteratee e x p = (p', sig)" by (cases "iteratee e x p")
  have q1: "quiet p p'" using iteratee_quiet' [of p e x] it by simp
  have less: "c + length xs \<le> len" "c + length xs \<noteq> len" using Cons.prems(1) by simp_all
  have same: "quiet p' (snd (snd (each_loop (iteratee e) finish len xs (g, c, p'))))" for g
    using Cons.IH [where c = c and f = g and p = p'] less by simp
  show ?case
  proof (cases sig)
    case Pending
    then show ?thesis using it q1 same [of f] by (auto simp: callback_def intro: quiet_trans)
  next
    case (Next err)
    show ?thesis
    proof (cases f)
      case True
      then show ?thesis using it q1 same [of f] Next
        by (auto simp: callback_def intro: quiet_trans)
    next
      case False
      show ?thesis
      proof (cases err)
        case (Some er)
        have q2: "quiet p' (finish (Some er) p')" by (rule finish_error_quiet)
        have q3: "quiet (finish (Some er) p')
                    (snd (snd (each_loop (iteratee e) finish len xs (True, c, finish (Some er) p'))))"
          using Cons.IH [where c = c and f = True and p = "finish (Some er) p'"] less by simp
        have "quiet p (snd (snd (each_loop (iteratee e) finish len xs (True, c, finish (Some er) p'))))"
          using q1 q2 q3 by (blast intro: quiet_trans)
        then show ?thesis using it Next False Some by (simp add: callback_def)
      next
        case None
        have tx: "truthy (src_url x)"
          using iteratee_next_truthy [of e x p] it Next by simp
        have ne: "Suc c \<noteq> len"
        proof
          assume eq: "Suc c = len"
          have "c + Suc (length xs) \<le> len" using Cons.prems(1) by simp
          with eq have "length xs \<le> 0" by linarith
          then have "xs = []" by simp
          with eq Cons.prems(2) tx show False by simp
        qed
        have le: "Suc c + length xs \<le> len" using Cons.prems(1) by simp
        have ex: "Suc c + length xs = len \<longrightarrow> list_ex (\<lambda>x. \<not> truthy (src_url x)) xs"
          using Cons.prems(2) tx by simp
        have q3: "quiet p' (snd (snd (each_loop (iteratee e) finish len xs (f, Suc c, p'))))"
          using Cons.IH [where c = "Suc c" and f = f and p = p'] le ex by simp
        have "quiet p (snd (snd (each_loop (iteratee e) finish len xs (f, Suc c, p'))))"
          using q1 q3 by (rule quiet_trans)
        then show ?thesis using it Next False None ne by (simp add: callback_def)
      qed
    qed
  qed
qed

lemma finish_grows: "\<exists>ev. p_trace (finish err p) = p_trace p @ ev"
  by (cases err) (auto simp: finish_def save_def Let_def)

lemma callback_grows:
  "\<exists>ev. p_trace (snd (snd (callback finish len sig (f, c, p)))) = p_trace p @ ev"
proof (cases sig)
  case Pending
  then show ?thesis by (simp add: callback_def)
next
  case (Next err)
  show ?thesis
  proof (cases "f \<or> (err = None \<and> Suc c \<noteq> len)")
    case True
    then show ?thesis using Next by (auto simp: callback_def)
  next
    case False
    then have "snd (snd (callback finish len sig (f, c, p))) = finish err p"
      using Next by (cases err) (auto simp: callback_def)
    then show ?thesis using finish_grows [of err p] by simp
  qed
qed

lemma each_loop_grows:
  "\<exists>ev. p_trace (snd (snd (each_loop (iteratee e) finish len xs (f, c, p)))) = p_trace p @ ev"
proof (induction xs arbitrary: f c p)
  case Nil
  show ?case by simp
next
  case (Cons x xs)
  obtain p' sig where it: "iteratee e x p = (p', sig)" by (cases "iteratee e x p")
  obtain f' c' p'' where cb: "callback finish len sig (f, c, p') = (f', c', p'')"
    by (cases "callback finish len sig (f, c, p')")
  obtain a where a: "p_trace p' = p_trace p @ a"
    using iteratee_quiet [of e x p] it by auto
  obtain b where b: "p_trace p'' = p_trace p' @ b"
    using callback_grows [of len sig f c p'] cb by auto
  obtain d where d: "p_trace (snd (snd (each_loop (iteratee e) finish len xs (f', c', p''))))
                       = p_trace p'' @ d"
    using Cons.IH [where f = f' and c = c' and p = p''] by blast
  have "p_trace (snd (snd (each_loop (iteratee e) finish len (x # xs) (f, c, p))))
          = p_trace p @ (a @ b @ d)"
    using it cb a b d by simp
  then show ?case by blast
qed

section \<open>The claims\<close>

subsection \<open>The popular-resolutions branch\<close>

text \<open>
  Claim C1, as stated, fails: for the tokens \<open>w3counter\<close> and \<open>iphone 5\<close> there is no
  explicit size and the keyword list is not the single marker, yet the step calls the
  popular-resolutions lookup and never the viewport lookup.
\<close>

theorem popular_branch_counterexample:
  "explicit_sizes [''w3counter'', ''iphone 5''] = [] \<and>
   keywords_of [''w3counter'', ''iphone 5''] \<noteq> [''w3counter''] \<and>
   new_events (construct sample_env None)
     (fst (iteratee sample_env
        \<lparr>src_url = Some ''example.com'', src_sizes = [''w3counter'', ''iphone 5''],
         src_options = None\<rparr>
        (construct sample_env None)))
     = [GetRes,
        Spawn (job_options sample_env ''example.com'' ''1366x768''
                 (p_options (construct sample_env None))),
        Spawn (job_options sample_env ''example.com'' ''1920x1080''
                 (p_options (construct sample_env None)))]"
proof -
  let ?toks = "[''w3counter'', ''iphone 5'']"
  let ?s = "\<lparr>src_url = Some ''example.com'', src_sizes = ?toks, src_options = None\<rparr>"
  let ?p = "construct sample_env None"
  have a: "explicit_sizes ?toks = []" by code_simp
  have b: "keywords_of ?toks = ?toks" by code_simp
  have c: "keywords_of ?toks \<noteq> [''w3counter'']" unfolding b by simp
  have g: "getRes sample_env = Inr [\<lparr>item = ''1366x768''\<rparr>, \<lparr>item = ''1920x1080''\<rparr>]"
    by (simp add: sample_env_def)
  have m: "merged_options ?p ?s = p_options ?p"
    by (simp add: merged_options_def assign_def override_def no_options_def construct_def Let_def)
  have "iteratee sample_env ?s ?p
          = do_resolution sample_env ''example.com'' (p_options ?p) (?p\<lparr>p_urls := p_urls ?p @ [''example.com'']\<rparr>)"
    using a b m by (simp add: iteratee_present [of ?s "''example.com''"] Let_def)
  then have "p_trace (fst (iteratee sample_env ?s ?p))
          = p_trace ?p @ [GetRes,
        Spawn (job_options sample_env ''example.com'' ''1366x768'' (p_options ?p)),
        Spawn (job_options sample_env ''example.com'' ''1920x1080'' (p_options ?p))]"
    by (simp add: do_resolution_ok [OF g])
  then have d: "new_events ?p (fst (iteratee sample_env ?s ?p)) = [GetRes,
        Spawn (job_options sample_env ''example.com'' ''1366x768'' (p_options ?p)),
        Spawn (job_options sample_env ''example.com'' ''1920x1080'' (p_options ?p))]"
    by (rule new_events_append)
  from a c d show ?thesis by (intro conjI)
qed

text \<open>
  Claim C1, amended. For a source with a URL and no explicit size, the step calls the
  popular-resolutions lookup if and only if the keyword list contains the marker
  \<open>w3counter\<close>. On that branch the viewport lookup is never called, and when the lookup
  returns a list, the sizes recorded and the jobs generated are its entries, in the order
  returned.
\<close>

theorem popular_branch:
  assumes url: "src_url s = Some u" "u \<noteq> []"
    and no_sizes: "explicit_sizes (src_sizes s) = []"
  shows "(GetRes \<in> set (new_events p (fst (iteratee e s p)))
            \<longleftrightarrow> ''w3counter'' \<in> set (keywords_of (src_sizes s))) \<and>
         (''w3counter'' \<in> set (keywords_of (src_sizes s)) \<longrightarrow>
            (\<forall>kws. ViewportList kws \<notin> set (new_events p (fst (iteratee e s p))))) \<and>
         (''w3counter'' \<in> set (keywords_of (src_sizes s)) \<and> getRes e = Inr res \<longrightarrow>
            p_sizes (fst (iteratee e s p)) = p_sizes p @ map item res \<and>
            p_items (fst (iteratee e s p))
              = p_items p @ map (capture e u (merged_options p s)) (map item res) \<and>
            new_events p (fst (iteratee e s p))
              = GetRes # map (\<lambda>sz. Spawn (job_options e u sz (merged_options p s))) (map item res))"
proof (cases "''w3counter'' \<in> set (keywords_of (src_sizes s))")
  case True
  let ?p1 = "p\<lparr>p_urls := p_urls p @ [u]\<rparr>"
  have step: "iteratee e s p = do_resolution e u (merged_options p s) ?p1"
    using True no_sizes by (simp add: iteratee_present [OF url] Let_def)
  show ?thesis
  proof (cases "getRes e")
    case (Inl err)
    have "p_trace (fst (iteratee e s p)) = p_trace p @ [GetRes]"
      by (simp add: step do_resolution_err [OF Inl])
    then have "new_events p (fst (iteratee e s p)) = [GetRes]" by simp
    with True Inl show ?thesis by simp
  next
    case (Inr r)
    have tr: "p_trace (fst (iteratee e s p))
                = p_trace p @ GetRes # map (\<lambda>sz. Spawn (job_options e u sz (merged_options p s))) (map item r)"
      by (simp add: step do_resolution_ok [OF Inr])
    have ev: "new_events p (fst (iteratee e s p))
                = GetRes # map (\<lambda>sz. Spawn (job_options e u sz (merged_options p s))) (map item r)"
      using tr by simp
    have sz: "p_sizes (fst (iteratee e s p)) = p_sizes p @ map item r"
      by (simp add: step do_resolution_ok [OF Inr])
    have it: "p_items (fst (iteratee e s p))
                = p_items p @ map (capture e u (merged_options p s)) (map item r)"
      by (simp add: step do_resolution_ok [OF Inr])
    have nv: "\<forall>kws. ViewportList kws \<notin> set (new_events p (fst (iteratee e s p)))"
      unfolding ev by auto
    have g: "GetRes \<in> set (new_events p (fst (iteratee e s p)))"
      unfolding ev by simp
    from True Inr g nv sz it ev show ?thesis by simp
  qed
next
  case False
  let ?p1 = "p\<lparr>p_urls := p_urls p @ [u]\<rparr>"
  let ?kws = "keywords_of (src_sizes s)"
  have "GetRes \<notin> set (new_events p (fst (iteratee e s p)))"
  proof (cases "?kws = []")
    case True
    have "p_trace (fst (iteratee e s p)) = p_trace p @ []"
      using True False no_sizes by (simp add: iteratee_present [OF url] Let_def)
    then have "new_events p (fst (iteratee e s p)) = []" by (rule new_events_append)
    then show ?thesis by simp
  next
    case ne: False
    have step: "iteratee e s p = do_viewport e u [] ?kws (merged_options p s) ?p1"
      using ne False no_sizes by (simp add: iteratee_present [OF url] Let_def)
    show ?thesis
    proof (cases "viewport e ?kws")
      case (Inl err)
      have "p_trace (fst (iteratee e s p)) = p_trace p @ [ViewportList ?kws]"
        by (simp add: step do_viewport_err [OF Inl])
      then have "new_events p (fst (iteratee e s p)) = [ViewportList ?kws]" by simp
      then show ?thesis by simp
    next
      case (Inr r)
      have "p_trace (fst (iteratee e s p))
              = p_trace p @ ViewportList ?kws #
                  map (\<lambda>sz. Spawn (job_options e u sz (merged_options p s))) (uniq ([] @ map vsize r))"
        by (simp add: step do_viewport_ok [OF Inr])
      then have "new_events p (fst (iteratee e s p))
              = ViewportList ?kws #
                  map (\<lambda>sz. Spawn (job_options e u sz (merged_options p s))) (uniq ([] @ map vsize r))"
        by (rule new_events_append)
      then show ?thesis by auto
    qed
  qed
  with False show ?thesis by simp
qed

theorem popular_branch_witness:
  "p_sizes (fst (iteratee sample_env
       \<lparr>src_url = Some ''example.com'', src_sizes = [''w3counter''], src_options = None\<rparr>
       (construct sample_env None)))
     = [''1366x768'', ''1920x1080''] \<and>
   GetRes \<in> set (new_events (construct sample_env None)
       (fst (iteratee sample_env
          \<lparr>src_url = Some ''example.com'', src_sizes = [''w3counter''], src_options = None\<rparr>
          (construct sample_env None))))"
proof -
  let ?s = "\<lparr>src_url = Some ''example.com'', src_sizes = [''w3counter''], src_options = None\<rparr>"
  let ?p = "construct sample_env None"
  let ?res = "[\<lparr>item = ''1366x768''\<rparr>, \<lparr>item = ''1920x1080''\<rparr>]"
  have h1: "src_url ?s = Some ''example.com''" by simp
  have h2: "''example.com'' \<noteq> []" by simp
  have h3: "explicit_sizes (src_sizes ?s) = []" by code_simp
  have h4: "''w3counter'' \<in> set (keywords_of (src_sizes ?s))" by code_simp
  have h5: "getRes sample_env = Inr ?res" by (simp add: sample_env_def)
  note t = popular_branch [OF h1 h2 h3, of ?p sample_env ?res]
  from t h4 have a: "GetRes \<in> set (new_events ?p (fst (iteratee sample_env ?s ?p)))"
    by blast
  from t h4 h5 have "p_sizes (fst (iteratee sample_env ?s ?p)) = p_sizes ?p @ map item ?res"
    by blast
  then have b: "p_sizes (fst (iteratee sample_env ?s ?p)) = [''1366x768'', ''1920x1080'']"
    by (simp add: construct_def Let_def)
  from b a show ?thesis by (rule conjI)
qed

subsection \<open>A source without a URL\<close>

text \<open>
  Claim C2, as stated, fails: the URL is tested in the step of each source, and the step
  of a source with explicit sizes only spawns its renderers at once. Here the first source
  has a URL and one explicit size and the second has no URL: the run spawns one renderer
  and then calls back with the error.
\<close>

theorem run_missing_url_counterexample:
  "map src_url (p_src
      (src None [''1024x768''] None
        (src (Some ''example.com'') [''1024x768''] None (Pageres sample_env True None))))
     = [Some ''example.com'', None] \<and>
   p_trace (run sample_env
      (src None [''1024x768''] None
        (src (Some ''example.com'') [''1024x768''] None (Pageres sample_env True None))))
     = [Spawn (job_options sample_env ''example.com'' ''1024x768''
                 (p_options (Pageres sample_env True None))),
        Callback (Inl UrlRequired)]"
  by code_simp

text \<open>
  Claim C2, amended. When the renderer is available and some registered source has no
  URL, wherever it stands in the list, the run calls back with the error \<open>URL required\<close>
  and never succeeds: it writes no statistics, starts no save and never calls back with a
  list of streams. The step of that source spawns no renderer and never calls \<open>next\<close>.
  Nothing is said of the renderers of the other sources.
\<close>

theorem run_missing_url:
  assumes renderer: "truthy (phantomjs e)"
    and sources: "p_src p = pre @ bad # post"
    and missing: "\<not> truthy (src_url bad)"
  shows "Callback (Inl UrlRequired) \<in> set (new_events p (run e p)) \<and>
         quiet p (run e p) \<and>
         iteratee e bad q = (q\<lparr>p_trace := p_trace q @ [Callback (Inl UrlRequired)]\<rparr>, Pending)"
proof -
  let ?n = "length (p_src p)"
  let ?loop = "each_loop (iteratee e) finish ?n"
  have run: "run e p = snd (snd (?loop (pre @ bad # post) (False, 0, p)))"
    using renderer sources by (simp add: run_def eachAsync_def)
  obtain f1 c1 q1 where pre: "?loop pre (False, 0, p) = (f1, c1, q1)"
    by (cases "?loop pre (False, 0, p)")
  let ?q2 = "q1\<lparr>p_trace := p_trace q1 @ [Callback (Inl UrlRequired)]\<rparr>"
  have "?loop (pre @ bad # post) (False, 0, p) = ?loop (bad # post) (f1, c1, q1)"
    by (simp add: each_loop_append pre)
  also have "\<dots> = ?loop post (f1, c1, ?q2)"
    by (simp add: iteratee_missing [OF missing] callback_def)
  finally have split: "?loop (pre @ bad # post) (False, 0, p) = ?loop post (f1, c1, ?q2)" .
  obtain a where a: "p_trace q1 = p_trace p @ a"
    using each_loop_grows [of e ?n pre False 0 p] pre by auto
  obtain ev where "p_trace (snd (snd (?loop post (f1, c1, ?q2)))) = p_trace ?q2 @ ev"
    using each_loop_grows [of e ?n post f1 c1 ?q2] by blast
  then have "p_trace (run e p) = p_trace p @ (a @ Callback (Inl UrlRequired) # ev)"
    by (simp add: run split a)
  then have "new_events p (run e p) = a @ Callback (Inl UrlRequired) # ev"
    by (rule new_events_append)
  then have 1: "Callback (Inl UrlRequired) \<in> set (new_events p (run e p))" by simp
  have "list_ex (\<lambda>x. \<not> truthy (src_url x)) (p_src p)"
    using sources missing by (simp add: list_ex_iff)
  then have 2: "quiet p (run e p)"
    unfolding run sources [symmetric]
    using each_loop_quiet [of 0 "p_src p" ?n p e False] by simp
  have 3: "iteratee e bad q = (q\<lparr>p_trace := p_trace q @ [Callback (Inl UrlRequired)]\<rparr>, Pending)"
    by (rule iteratee_missing [OF missing])
  from 1 2 3 show ?thesis by (intro conjI)
qed

theorem run_missing_url_witness:
  "Callback (Inl UrlRequired) \<in> set (new_events
      (src (Some ''example.com'') [''1024x768''] None
        (src None [''1024x768''] None
          (src (Some ''example.org'') [''w3counter''] None (Pageres sample_env True None))))
      (run sample_env
        (src (Some ''example.com'') [''1024x768''] None
          (src None [''1024x768''] None
            (src (Some ''example.org'') [''w3counter''] None (Pageres sample_env True None)))))) \<and>
   p_stats (run sample_env
      (src (Some ''example.com'') [''1024x768''] None
        (src None [''1024x768''] None
          (src (Some ''example.org'') [''w3counter''] None (Pageres sample_env True None)))))
     = None"
proof -
  let ?first = "\<lparr>src_url = Some ''example.org'', src_sizes = [''w3counter''], src_options = None\<rparr>"
  let ?bad = "\<lparr>src_url = None, src_sizes = [''1024x768''], src_options = None\<rparr>"
  let ?last = "\<lparr>src_url = Some ''example.com'', src_sizes = [''1024x768''], src_options = None\<rparr>"
  let ?p = "src (Some ''example.com'') [''1024x768''] None
        (src None [''1024x768''] None
          (src (Some ''example.org'') [''w3counter''] None (Pageres sample_env True None)))"
  have h1: "truthy (phantomjs sample_env)" by (simp add: sample_env_def truthy_def)
  have h2: "p_src ?p = [?first] @ ?bad # [?last]"
    by (simp add: src_def Pageres_def construct_def Let_def)
  have h3: "\<not> truthy (src_url ?bad)" by (simp add: truthy_def)
  have st: "p_stats ?p = None" by (simp add: src_def Pageres_def construct_def Let_def)
  note t = run_missing_url [OF h1 h2 h3, of ?p]
  from t have a: "Callback (Inl UrlRequired) \<in> set (new_events ?p (run sample_env ?p))"
    by blast
  from t have "quiet ?p (run sample_env ?p)" by blast
  then have "p_stats (run sample_env ?p) = p_stats ?p" by (simp add: quiet_def)
  then have b: "p_stats (run sample_env ?p) = None" unfolding st .
  from a b show ?thesis by (rule conjI)
qed

subsection \<open>The cache of the lookups\<close>

text \<open>
  Claim C3 does not hold of the code: each call of \<open>_resolution\<close> and of \<open>_viewport\<close> wraps
  the service anew, so the cache it consults is empty. Two sources with the token
  \<open>w3counter\<close> call the popular-resolutions service twice in one run, and two sources with
  the keyword \<open>iphone 5\<close> call the viewport service twice with the same argument.
\<close>

theorem lookups_not_shared:
  "filter (\<lambda>ev. ev = GetRes)
     (p_trace (run sample_env
        (src (Some ''example.org'') [''w3counter''] None
          (src (Some ''example.com'') [''w3counter''] None (Pageres sample_env True None)))))
     = [GetRes, GetRes] \<and>
   filter (\<lambda>ev. ev = ViewportList [''iphone 5''])
     (p_trace (run sample_env
        (src (Some ''example.org'') [''iphone 5''] None
          (src (Some ''example.com'') [''iphone 5''] None (Pageres sample_env True None)))))
     = [ViewportList [''iphone 5''], ViewportList [''iphone 5'']]"
  by code_simp

subsection \<open>The partition of the tokens\<close>

text \<open>
  Claim C4. The explicit-size list holds exactly the tokens that match the resolution
  pattern, each once, unchanged and in the order of the token list, and the keyword list
  is the difference of the token list against it, which is the list of the tokens that do
  not match. The tokens \<open>1024x768\<close>, \<open>1024x768\<close> give one explicit size and no keyword, and
  the step of such a source records one size and generates one job.
\<close>

theorem partition_tokens:
  "distinct (explicit_sizes toks) \<and>
   set (explicit_sizes toks) = {t \<in> set toks. is_resolution t} \<and>
   subseq (explicit_sizes toks) toks \<and>
   keywords_of toks = filter (\<lambda>t. t \<notin> set (explicit_sizes toks)) toks \<and>
   keywords_of toks = filter (\<lambda>t. \<not> is_resolution t) toks \<and>
   explicit_sizes [''1024x768'', ''1024x768''] = [''1024x768''] \<and>
   keywords_of [''1024x768'', ''1024x768''] = [] \<and>
   p_sizes (fst (iteratee e
       \<lparr>src_url = Some ''example.com'', src_sizes = [''1024x768'', ''1024x768''],
        src_options = so\<rparr> p))
     = p_sizes p @ [''1024x768''] \<and>
   length (p_items (fst (iteratee e
       \<lparr>src_url = Some ''example.com'', src_sizes = [''1024x768'', ''1024x768''],
        src_options = so\<rparr> p)))
     = Suc (length (p_items p))"
proof -
  let ?s = "\<lparr>src_url = Some ''example.com'', src_sizes = [''1024x768'', ''1024x768''],
        src_options = so\<rparr>"
  have 1: "distinct (explicit_sizes toks)"
    by (simp add: explicit_sizes_def distinct_uniq)
  have 2: "set (explicit_sizes toks) = {t \<in> set toks. is_resolution t}"
    by (auto simp: explicit_sizes_def set_uniq)
  have "subseq (explicit_sizes toks) (filter is_resolution toks)"
    unfolding explicit_sizes_def by (rule subseq_uniq)
  moreover have "subseq (filter is_resolution toks) toks" by simp
  ultimately have 3: "subseq (explicit_sizes toks) toks" by (rule subseq_order.trans)
  have 4: "keywords_of toks = filter (\<lambda>t. t \<notin> set (explicit_sizes toks)) toks"
    by (simp add: keywords_of_def difference_def)
  have 5: "keywords_of toks = filter (\<lambda>t. \<not> is_resolution t) toks"
    by (rule keywords_of_eq)
  have 6: "explicit_sizes [''1024x768'', ''1024x768''] = [''1024x768'']" by code_simp
  have 7: "keywords_of [''1024x768'', ''1024x768''] = []" by code_simp
  have st: "iteratee e ?s p =
      (fold (\<lambda>sz q. push_item e ''example.com'' (merged_options p ?s) sz (push_size sz q))
         [''1024x768''] (p\<lparr>p_urls := p_urls p @ [''example.com'']\<rparr>), Next None)"
    using 6 7 by (simp add: iteratee_present [of ?s "''example.com''"] Let_def)
  have 8: "p_sizes (fst (iteratee e ?s p)) = p_sizes p @ [''1024x768'']"
    unfolding st fold_push_size_item by simp
  have 9: "length (p_items (fst (iteratee e ?s p))) = Suc (length (p_items p))"
    unfolding st fold_push_size_item by simp
  from 1 2 3 4 5 6 7 8 9 show ?thesis by (intro conjI)
qed

theorem partition_tokens_witness:
  "distinct (explicit_sizes [''1024x768'', ''iphone 5'', ''480X320'', ''1024x768'', ''w3counter'']) \<and>
   set (explicit_sizes [''1024x768'', ''iphone 5'', ''480X320'', ''1024x768'', ''w3counter''])
     = {''1024x768'', ''480X320''} \<and>
   keywords_of [''1024x768'', ''iphone 5'', ''480X320'', ''1024x768'', ''w3counter'']
     = [''iphone 5'', ''w3counter'']"
proof -
  let ?toks = "[''1024x768'', ''iphone 5'', ''480X320'', ''1024x768'', ''w3counter'']"
  note t = partition_tokens [of ?toks sample_env None "construct sample_env None"]
  have r: "is_resolution ''1024x768''" "\<not> is_resolution ''iphone 5''"
    "is_resolution ''480X320''" "\<not> is_resolution ''w3counter''"
    by code_simp+
  from t have a: "distinct (explicit_sizes ?toks)" by (rule conjunct1)
  from t have "set (explicit_sizes ?toks) = {t \<in> set ?toks. is_resolution t}"
    by (elim conjE)
  also have "\<dots> = {''1024x768'', ''480X320''}" using r by auto
  finally have b: "set (explicit_sizes ?toks) = {''1024x768'', ''480X320''}" .
  from t have "keywords_of ?toks = filter (\<lambda>t. \<not> is_resolution t) ?toks"
    by (elim conjE)
  also have "\<dots> = [''iphone 5'', ''w3counter'']" using r by simp
  finally have c: "keywords_of ?toks = [''iphone 5'', ''w3counter'']" .
  from a b c show ?thesis by (intro conjI)
qed

subsection \<open>The viewport branch\<close>

text \<open>
  Claim C5. For a source with a URL and a non-empty keyword list that does not take the
  popular-resolutions branch, when the viewport lookup returns a list: the lookup is called
  once, with the keyword list; the sizes of its entries are appended after the explicit
  sizes; the list is deduplicated, which keeps the explicit sizes in front; and one job is
  generated for each element of the deduplicated list, as many as the union has elements.
\<close>

theorem viewport_branch:
  assumes url: "src_url s = Some u" "u \<noteq> []"
    and kws: "keywords_of (src_sizes s) \<noteq> []"
    and not_popular: "\<not> (explicit_sizes (src_sizes s) = []
                          \<and> ''w3counter'' \<in> set (keywords_of (src_sizes s)))"
    and lookup: "viewport e (keywords_of (src_sizes s)) = Inr res"
  shows "new_events p (fst (iteratee e s p))
           = ViewportList (keywords_of (src_sizes s)) #
               map (\<lambda>sz. Spawn (job_options e u sz (merged_options p s)))
                 (uniq (explicit_sizes (src_sizes s) @ map vsize res)) \<and>
         p_items (fst (iteratee e s p))
           = p_items p @ map (capture e u (merged_options p s))
               (uniq (explicit_sizes (src_sizes s) @ map vsize res)) \<and>
         uniq (explicit_sizes (src_sizes s) @ map vsize res)
           = explicit_sizes (src_sizes s) @
               uniq (filter (\<lambda>y. y \<notin> set (explicit_sizes (src_sizes s))) (map vsize res)) \<and>
         distinct (uniq (explicit_sizes (src_sizes s) @ map vsize res)) \<and>
         set (uniq (explicit_sizes (src_sizes s) @ map vsize res))
           = set (explicit_sizes (src_sizes s)) \<union> vsize ` set res \<and>
         length (p_items (fst (iteratee e s p)))
           = length (p_items p) + card (set (explicit_sizes (src_sizes s)) \<union> vsize ` set res)"
proof -
  let ?szs = "explicit_sizes (src_sizes s)"
  let ?kws = "keywords_of (src_sizes s)"
  let ?os = "merged_options p s"
  let ?all = "uniq (?szs @ map vsize res)"
  have step: "iteratee e s p = do_viewport e u ?szs ?kws ?os (p\<lparr>p_urls := p_urls p @ [u]\<rparr>)"
    using kws not_popular by (auto simp add: iteratee_present [OF url] Let_def)
  have tr: "p_trace (fst (iteratee e s p))
              = p_trace p @ ViewportList ?kws # map (\<lambda>sz. Spawn (job_options e u sz ?os)) ?all"
    by (simp add: step do_viewport_ok [OF lookup])
  then have 1: "new_events p (fst (iteratee e s p))
              = ViewportList ?kws # map (\<lambda>sz. Spawn (job_options e u sz ?os)) ?all"
    by (rule new_events_append)
  have 2: "p_items (fst (iteratee e s p)) = p_items p @ map (capture e u ?os) ?all"
    by (simp add: step do_viewport_ok [OF lookup])
  have "distinct ?szs" by (simp add: explicit_sizes_def distinct_uniq)
  then have 3: "?all = ?szs @ uniq (filter (\<lambda>y. y \<notin> set ?szs) (map vsize res))"
    by (rule uniq_append_distinct)
  have 4: "distinct ?all" by (rule distinct_uniq)
  have 5: "set ?all = set ?szs \<union> vsize ` set res" by (simp add: set_uniq)
  have "length ?all = card (set ?szs \<union> vsize ` set res)"
    by (simp add: length_uniq)
  with 2 have 6: "length (p_items (fst (iteratee e s p)))
           = length (p_items p) + card (set ?szs \<union> vsize ` set res)"
    by simp
  from 1 2 3 4 5 6 show ?thesis by (intro conjI)
qed

theorem viewport_branch_witness:
  "new_events (construct sample_env None)
     (fst (iteratee sample_env
        \<lparr>src_url = Some ''example.com'', src_sizes = [''1024x768'', ''iphone 5''],
         src_options = None\<rparr>
        (construct sample_env None)))
     = [ViewportList [''iphone 5''],
        Spawn (job_options sample_env ''example.com'' ''1024x768''
                 (p_options (construct sample_env None))),
        Spawn (job_options sample_env ''example.com'' ''320x568''
                 (p_options (construct sample_env None)))]"
proof -
  let ?s = "\<lparr>src_url = Some ''example.com'', src_sizes = [''1024x768'', ''iphone 5''],
         src_options = None\<rparr>"
  let ?p = "construct sample_env None"
  let ?res = "[\<lparr>vsize = ''320x568''\<rparr>]"
  have h1: "src_url ?s = Some ''example.com''" by simp
  have h2: "''example.com'' \<noteq> []" by simp
  have sz: "explicit_sizes (src_sizes ?s) = [''1024x768'']" by code_simp
  have kw: "keywords_of (src_sizes ?s) = [''iphone 5'']" by code_simp
  have h3: "keywords_of (src_sizes ?s) \<noteq> []" unfolding kw by simp
  have h4: "\<not> (explicit_sizes (src_sizes ?s) = []
               \<and> ''w3counter'' \<in> set (keywords_of (src_sizes ?s)))"
    unfolding sz by simp
  have h5: "viewport sample_env (keywords_of (src_sizes ?s)) = Inr ?res"
    unfolding kw by (simp add: sample_env_def)
  have m: "merged_options ?p ?s = p_options ?p"
    by (simp add: merged_options_def assign_def override_def no_options_def construct_def Let_def)
  have u: "uniq ([''1024x768''] @ map vsize ?res) = [''1024x768'', ''320x568'']"
    by code_simp
  from viewport_branch [OF h1 h2 h3 h4 h5, of ?p]
  have "new_events ?p (fst (iteratee sample_env ?s ?p))
           = ViewportList (keywords_of (src_sizes ?s)) #
               map (\<lambda>sz. Spawn (job_options sample_env ''example.com'' sz (merged_options ?p ?s)))
                 (uniq (explicit_sizes (src_sizes ?s) @ map vsize ?res))"
    by (rule conjunct1)
  then show ?thesis unfolding sz kw m u by simp
qed

subsection \<open>The URL given to the renderer\<close>

text \<open>
  Claim C6. The URL of a generated job is the normalized URL: the \<open>file://\<close> form of an
  existing local file; otherwise the string with \<open>http://\<close> prepended if it begins with
  \<open>localhost\<close>, and with \<open>http://\<close> prepended after that if the result has no protocol.
  So a string with a protocol that is no file and does not begin with \<open>localhost\<close> passes
  unchanged, one without a protocol gets \<open>http://\<close> once, and one that begins with
  \<open>localhost\<close> gets \<open>http://\<close> once when the protocol of the result is recognized.
\<close>

theorem url_normalization:
  "po_url (spawned_with (fst (generate e u sz os p))) = new_url e u \<and>
   (existsSync e u \<longrightarrow> new_url e u = fileUrl e u) \<and>
   (\<not> existsSync e u \<longrightarrow>
      new_url e u =
        (let n = (if prefix ''localhost'' u then ''http://'' @ u else u)
         in if truthy (protocol e n) then n else ''http://'' @ n)) \<and>
   (\<not> existsSync e u \<and> \<not> prefix ''localhost'' u \<and> truthy (protocol e u) \<longrightarrow>
      new_url e u = u) \<and>
   (\<not> existsSync e u \<and> \<not> prefix ''localhost'' u \<and> \<not> truthy (protocol e u) \<longrightarrow>
      new_url e u = ''http://'' @ u) \<and>
   (\<not> existsSync e u \<and> prefix ''localhost'' u \<and> truthy (protocol e (''http://'' @ u)) \<longrightarrow>
      new_url e u = ''http://'' @ u)"
proof -
  have 1: "po_url (spawned_with (fst (generate e u sz os p))) = new_url e u"
    by (simp add: generate_eq capture_def job_options_def)
  have 2: "existsSync e u \<longrightarrow> new_url e u = fileUrl e u"
    by (simp add: new_url_def)
  have 3: "\<not> existsSync e u \<longrightarrow>
      new_url e u =
        (let n = (if prefix ''localhost'' u then ''http://'' @ u else u)
         in if truthy (protocol e n) then n else ''http://'' @ n)"
    by (cases "prefix ''localhost'' u")
       (simp_all add: new_url_def Let_def replace_localhost_prefix replace_localhost_other)
  have 4: "\<not> existsSync e u \<and> \<not> prefix ''localhost'' u \<and> truthy (protocol e u) \<longrightarrow>
      new_url e u = u"
    by (simp add: new_url_def Let_def replace_localhost_other)
  have 5: "\<not> existsSync e u \<and> \<not> prefix ''localhost'' u \<and> \<not> truthy (protocol e u) \<longrightarrow>
      new_url e u = ''http://'' @ u"
    by (simp add: new_url_def Let_def replace_localhost_other)
  have 6: "\<not> existsSync e u \<and> prefix ''localhost'' u \<and> truthy (protocol e (''http://'' @ u)) \<longrightarrow>
      new_url e u = ''http://'' @ u"
    by (simp add: new_url_def Let_def replace_localhost_prefix)
  from 1 2 3 4 5 6 show ?thesis by (intro conjI)
qed

theorem url_normalization_witness:
  "new_url sample_env ''index.html'' = ''file:///srv/index.html'' \<and>
   new_url sample_env ''https://example.com'' = ''https://example.com'' \<and>
   new_url sample_env ''example.com'' = ''http://example.com'' \<and>
   new_url sample_env ''localhost:3000'' = ''http://localhost:3000''"
proof -
  have a: "existsSync sample_env ''index.html''" by (simp add: sample_env_def)
  have fa: "fileUrl sample_env ''index.html'' = ''file:///srv/index.html''"
    by (simp add: sample_env_def)
  have b: "\<not> existsSync sample_env ''https://example.com'' \<and>
           \<not> prefix ''localhost'' ''https://example.com'' \<and>
           truthy (protocol sample_env ''https://example.com'')"
    by (simp add: sample_env_def) code_simp
  have c: "\<not> existsSync sample_env ''example.com'' \<and>
           \<not> prefix ''localhost'' ''example.com'' \<and>
           \<not> truthy (protocol sample_env ''example.com'')"
    by (simp add: sample_env_def) code_simp
  have d: "\<not> existsSync sample_env ''localhost:3000'' \<and>
           prefix ''localhost'' ''localhost:3000'' \<and>
           truthy (protocol sample_env (''http://'' @ ''localhost:3000''))"
    by (simp add: sample_env_def) code_simp
  note t1 = url_normalization [of sample_env "''index.html''" "''1024x768''" no_options
      "construct sample_env None"]
  note t2 = url_normalization [of sample_env "''https://example.com''" "''1024x768''" no_options
      "construct sample_env None"]
  note t3 = url_normalization [of sample_env "''example.com''" "''1024x768''" no_options
      "construct sample_env None"]
  note t4 = url_normalization [of sample_env "''localhost:3000''" "''1024x768''" no_options
      "construct sample_env None"]
  from t1 a have "new_url sample_env ''index.html'' = fileUrl sample_env ''index.html''"
    by blast
  then have 1: "new_url sample_env ''index.html'' = ''file:///srv/index.html''"
    unfolding fa .
  from t2 b have 2: "new_url sample_env ''https://example.com'' = ''https://example.com''"
    by blast
  from t3 c have "new_url sample_env ''example.com'' = ''http://'' @ ''example.com''"
    by blast
  then have 3: "new_url sample_env ''example.com'' = ''http://example.com''" by simp
  from t4 d have "new_url sample_env ''localhost:3000'' = ''http://'' @ ''localhost:3000''"
    by blast
  then have 4: "new_url sample_env ''localhost:3000'' = ''http://localhost:3000''" by simp
  from 1 2 3 4 show ?thesis by (intro conjI)
qed

subsection \<open>The filename of a job\<close>

text \<open>
  Claim C7. The constructor's default template renders, for every URL and size, to the url
  placeholder, a hyphen, the size, the crop suffix and \<open>.png\<close>, where the crop suffix is
  \<open>-cropped\<close> when cropping is enabled and empty otherwise. The url placeholder is the
  slug of the URL given to the renderer (of the path, for a local file) without a leading
  \<open>www.\<close>: the slug drops a leading \<open>http://\<close> or \<open>https://\<close>, also the \<open>http://\<close> that
  normalization prepends, and index.js removes a leading \<open>www.\<close>, \<open>http://www.\<close> or
  \<open>https://www.\<close> from the slug. For the URL \<open>example.com\<close>, which is no file and has no
  protocol, and whose characters the slug leaves as they are, the size \<open>1024x768\<close> gives
  \<open>example.com-1024x768.png\<close> without cropping and \<open>example.com-1024x768-cropped.png\<close>
  with it.
\<close>

theorem default_filename_rendering:
  "filename (p_options (Pageres e True None)) = Some default_filename \<and>
   stream_filename (fst (generate e u sz os p)) = job_filename e u sz os \<and>
   (filename os = Some default_filename \<longrightarrow>
      job_filename e u sz os
        = Some (strip_www (slugifyUrl e (if existsSync e u then u else new_url e u))
                @ ''-'' @ sz @ (if crop os = Some True then ''-cropped'' else []) @ ''.png'')) \<and>
   slugifyUrl e (''http://'' @ r) = slug_characters e r \<and>
   slugifyUrl e (''https://'' @ r) = slug_characters e r \<and>
   strip_www (''www.'' @ r) = r \<and>
   strip_www (''http://www.'' @ r) = r \<and>
   strip_www (''https://www.'' @ r) = r \<and>
   (\<not> existsSync e u \<and> \<not> prefix ''localhost'' u \<and> \<not> truthy (protocol e u) \<longrightarrow>
      slugifyUrl e (new_url e u) = slug_characters e u) \<and>
   (filename os = Some default_filename \<and> crop os \<noteq> Some True \<and>
    \<not> existsSync e ''example.com'' \<and> \<not> truthy (protocol e ''example.com'') \<and>
    slug_characters e ''example.com'' = ''example.com'' \<longrightarrow>
      job_filename e ''example.com'' ''1024x768'' os = Some ''example.com-1024x768.png'') \<and>
   (filename os = Some default_filename \<and> crop os = Some True \<and>
    \<not> existsSync e ''example.com'' \<and> \<not> truthy (protocol e ''example.com'') \<and>
    slug_characters e ''example.com'' = ''example.com'' \<longrightarrow>
      job_filename e ''example.com'' ''1024x768'' os
        = Some ''example.com-1024x768-cropped.png'')"
proof -
  have 1: "filename (p_options (Pageres e True None)) = Some default_filename"
    by (simp add: Pageres_def construct_def assign_def no_options_def Let_def)
  have 2: "stream_filename (fst (generate e u sz os p)) = job_filename e u sz os"
    by (simp add: generate_eq capture_def)
  have 3: "filename os = Some default_filename \<longrightarrow>
      job_filename e u sz os
        = Some (strip_www (slugifyUrl e (if existsSync e u then u else new_url e u))
                @ ''-'' @ sz @ (if crop os = Some True then ''-cropped'' else []) @ ''.png'')"
    by (simp add: job_filename_default)
  have 4: "slugifyUrl e (''http://'' @ r) = slug_characters e r"
    by (rule slugifyUrl_http)
  have 5: "slugifyUrl e (''https://'' @ r) = slug_characters e r"
    by (rule slugifyUrl_https)
  have 6: "\<not> existsSync e u \<and> \<not> prefix ''localhost'' u \<and> \<not> truthy (protocol e u) \<longrightarrow>
      slugifyUrl e (new_url e u) = slug_characters e u"
    using slugifyUrl_http [of e u]
    by (simp add: new_url_def Let_def replace_localhost_other)
  have n: "\<not> existsSync e ''example.com'' \<and> \<not> truthy (protocol e ''example.com'')
             \<Longrightarrow> new_url e ''example.com'' = ''http://'' @ ''example.com''"
    by (simp add: new_url_def replace_localhost_def drop_prefix_def)
  have s: "strip_www ''example.com'' = ''example.com''"
    by (simp add: strip_www_def drop_prefix_def)
  have 7: "filename os = Some default_filename \<and> crop os \<noteq> Some True \<and>
    \<not> existsSync e ''example.com'' \<and> \<not> truthy (protocol e ''example.com'') \<and>
    slug_characters e ''example.com'' = ''example.com'' \<longrightarrow>
      job_filename e ''example.com'' ''1024x768'' os = Some ''example.com-1024x768.png''"
    using job_filename_default [of os e "''example.com''" "''1024x768''"] n s
      slugifyUrl_http [of e "''example.com''"]
    by simp
  have 8: "filename os = Some default_filename \<and> crop os = Some True \<and>
    \<not> existsSync e ''example.com'' \<and> \<not> truthy (protocol e ''example.com'') \<and>
    slug_characters e ''example.com'' = ''example.com'' \<longrightarrow>
      job_filename e ''example.com'' ''1024x768'' os
        = Some ''example.com-1024x768-cropped.png''"
    using job_filename_default [of os e "''example.com''" "''1024x768''"] n s
      slugifyUrl_http [of e "''example.com''"]
    by simp
  from 1 2 3 4 5 strip_www_cases 6 7 8 show ?thesis by (intro conjI)
qed

theorem default_filename_rendering_witness:
  "job_filename sample_env ''example.com'' ''1024x768''
       (p_options (Pageres sample_env True None))
     = Some ''example.com-1024x768.png'' \<and>
   job_filename sample_env ''https://www.example.com'' ''1024x768''
       ((p_options (Pageres sample_env True None))\<lparr>crop := Some True\<rparr>)
     = Some ''example.com-1024x768-cropped.png''"
proof -
  let ?os = "p_options (Pageres sample_env True None)"
  let ?oc = "?os\<lparr>crop := Some True\<rparr>"
  note t1 = default_filename_rendering [of sample_env "''example.com''" "''1024x768''" ?os
      "construct sample_env None"]
  note t2 = default_filename_rendering [of sample_env "''https://www.example.com''"
      "''1024x768''" ?oc "construct sample_env None" "''www.example.com''"]
  have f1: "filename ?os = Some default_filename"
    by (simp add: Pageres_def construct_def assign_def no_options_def Let_def)
  have f2: "filename ?oc = Some default_filename"
    by (simp add: Pageres_def construct_def assign_def no_options_def Let_def)
  have c1: "crop ?os \<noteq> Some True"
    by (simp add: Pageres_def construct_def assign_def no_options_def Let_def)
  have c2: "crop ?oc = Some True" by simp
  have e1: "\<not> existsSync sample_env ''example.com''" by (simp add: sample_env_def)
  have e2: "\<not> truthy (protocol sample_env ''example.com'')"
    by (simp add: sample_env_def) code_simp
  have e3: "slug_characters sample_env ''example.com'' = ''example.com''"
    by (simp add: sample_env_def)
  have e4: "(if existsSync sample_env ''https://www.example.com''
             then ''https://www.example.com''
             else new_url sample_env ''https://www.example.com'')
            = ''https://'' @ ''www.example.com''"
    by code_simp
  have e5: "slug_characters sample_env ''www.example.com'' = ''www.'' @ ''example.com''"
    by (simp add: sample_env_def)
  from t1 [of "[]"] f1 c1 e1 e2 e3
  have 1: "job_filename sample_env ''example.com'' ''1024x768'' ?os
             = Some ''example.com-1024x768.png''"
    by blast
  from t2 have sl: "slugifyUrl sample_env (''https://'' @ ''www.example.com'')
                      = slug_characters sample_env ''www.example.com''"
    by blast
  from t1 [of "''example.com''"]
  have sw: "strip_www (''www.'' @ ''example.com'') = ''example.com''"
    by blast
  from t2 f2
  have "job_filename sample_env ''https://www.example.com'' ''1024x768'' ?oc
        = Some (strip_www (slugifyUrl sample_env
              (if existsSync sample_env ''https://www.example.com''
               then ''https://www.example.com''
               else new_url sample_env ''https://www.example.com''))
                @ ''-'' @ ''1024x768'' @ (if crop ?oc = Some True then ''-cropped'' else [])
                @ ''.png'')"
    by blast
  then have 2: "job_filename sample_env ''https://www.example.com'' ''1024x768'' ?oc
        = Some ''example.com-1024x768-cropped.png''"
    unfolding e4 sl e5 sw c2 by simp
  from 1 2 show ?thesis by (rule conjI)
qed

subsection \<open>The diagnostic channel\<close>

text \<open>
  Claim C8, as stated, fails: the listener takes the data of one event as a whole and
  never splits it into lines. Data that holds the line \<open>WARN: slow page\<close> and then the line
  \<open>ReferenceError: boom\<close> gives one \<open>warn\<close> event that carries both lines, and no \<open>error\<close>
  event, although the second line alone gives an \<open>error\<close> event. Likewise an error line
  that arrives together with a banner line is discarded with it.
\<close>

theorem on_stderr_data_counterexample:
  "on_stderr_data (''WARN: slow page'' @ [CHR 0x0A] @ ''ReferenceError: boom'' @ [CHR 0x0A])
     = Some (Warn (''slow page'' @ [CHR 0x0A] @ ''ReferenceError: boom'' @ [CHR 0x0A])) \<and>
   on_stderr_data ''ReferenceError: boom'' = Some (Error ''ReferenceError: boom'') \<and>
   on_stderr_data (''2014 phantomjs[4242] CoreText'' @ [CHR 0x0A] @ ''ReferenceError: boom'')
     = None"
  by code_simp

text \<open>
  Claim C8, amended. The claim holds of the data of each event of the diagnostic channel,
  taken as a whole (it may hold several lines, or part of one). The listener tests the
  banner pattern first: data that contains it anywhere is discarded. Other data that
  begins with \<open>WARN: \<close> is emitted as one \<open>warn\<close> event whose payload is all of the data
  after that prefix, and no \<open>error\<close> event is emitted for it. Other data that is not blank
  is emitted as an \<open>error\<close> event carrying the data itself, and blank data emits nothing.
  The data \<open>WARN: slow page\<close> gives the payload \<open>slow page\<close>.
\<close>

theorem on_stderr_data_cases:
  "(contains '' phantomjs['' d \<longrightarrow> on_stderr_data d = None) \<and>
   (\<not> contains '' phantomjs['' d \<and> d = ''WARN: '' @ payload \<longrightarrow>
      on_stderr_data d = Some (Warn payload)) \<and>
   (\<not> contains '' phantomjs['' d \<and> \<not> prefix ''WARN: '' d \<and> \<not> list_all is_space d \<longrightarrow>
      on_stderr_data d = Some (Error d)) \<and>
   (\<not> prefix ''WARN: '' d \<and> list_all is_space d \<longrightarrow> on_stderr_data d = None)"
proof -
  have a: "\<not> prefix ''WARN: '' d \<Longrightarrow> drop_prefix ''WARN: '' d = None"
    by (simp add: drop_prefix_None)
  have b: "d = ''WARN: '' @ payload \<Longrightarrow> drop_prefix ''WARN: '' d = Some payload"
    by (simp only: drop_prefix_Some)
  show ?thesis
    unfolding on_stderr_data_def using a b
    by (auto simp add: trim_empty_iff)
qed

theorem on_stderr_data_cases_witness:
  "on_stderr_data ''WARN: slow page'' = Some (Warn ''slow page'') \<and>
   on_stderr_data ''2014 phantomjs[4242] CoreText'' = None \<and>
   on_stderr_data ''ReferenceError'' = Some (Error ''ReferenceError'') \<and>
   on_stderr_data [CHR 0x0A] = None"
proof -
  have 1: "\<not> contains '' phantomjs['' ''WARN: slow page'' \<and>
           ''WARN: slow page'' = ''WARN: '' @ ''slow page''"
    by code_simp
  have 2: "contains '' phantomjs['' ''2014 phantomjs[4242] CoreText''"
    by code_simp
  have 3: "\<not> contains '' phantomjs['' ''ReferenceError'' \<and> \<not> prefix ''WARN: '' ''ReferenceError''
            \<and> \<not> list_all is_space ''ReferenceError''"
    by code_simp
  have 4: "\<not> prefix ''WARN: '' [CHR 0x0A] \<and> list_all is_space [CHR 0x0A]"
    by code_simp
  note a = on_stderr_data_cases [of "''WARN: slow page''" "''slow page''",
      THEN conjunct2, THEN conjunct1, THEN mp, OF 1]
  note b = on_stderr_data_cases [of "''2014 phantomjs[4242] CoreText''" "[]",
      THEN conjunct1, THEN mp, OF 2]
  note c = on_stderr_data_cases [of "''ReferenceError''" "[]",
      THEN conjunct2, THEN conjunct2, THEN conjunct1, THEN mp, OF 3]
  note d = on_stderr_data_cases [of "[CHR 0x0A]" "[]",
      THEN conjunct2, THEN conjunct2, THEN conjunct2, THEN mp, OF 4]
  from a b c d show ?thesis by (intro conjI)
qed

subsection \<open>The statistics of a run\<close>

text \<open>
  Claim C9 does not hold of the code: \<open>_viewport\<close> records the sizes of the lookup in the
  run's size list but not the explicit sizes of the source. A run over one source with the
  tokens \<open>1024x768\<close> and \<open>iphone 5\<close> generates jobs for two distinct sizes and ends with
  \<open>screenshots = 1\<close>.
\<close>

theorem screenshots_undercount:
  "p_stats (run sample_env
      (src (Some ''example.com'') [''1024x768'', ''iphone 5''] None (Pageres sample_env True None)))
     = Some \<lparr>screenshots = 1, urls = 1\<rparr> \<and>
   map (\<lambda>st. (po_width (spawned_with st), po_height (spawned_with st)))
     (p_items (run sample_env
        (src (Some ''example.com'') [''1024x768'', ''iphone 5''] None
           (Pageres sample_env True None))))
     = [(''1024'', Some ''768''), (''320'', Some ''568'')]"
  by code_simp

subsection \<open>The constructor called as a function\<close>

text \<open>
  Claim C10. A plain call of the constructor returns the object that \<open>new Pageres()\<close>
  returns, whatever options it was given: the default filename template, an empty cookie
  list, no crop and no delay. Under \<open>new\<close> the options given are kept.
\<close>

theorem plain_call_discards_options:
  "Pageres e False opts = Pageres e True None \<and>
   filename (p_options (Pageres e False opts)) = Some default_filename \<and>
   cookies (p_options (Pageres e False opts)) = Some [] \<and>
   crop (p_options (Pageres e False opts)) = None \<and>
   delay (p_options (Pageres e False opts)) = None \<and>
   crop (p_options (Pageres e True (Some os))) = crop os \<and>
   delay (p_options (Pageres e True (Some os))) = delay os"
  by (simp add: Pageres_def construct_def assign_def override_def no_options_def Let_def
      split: option.splits)

end
